theory Spec2Isabelle
  imports Complex_Main
begin

section \<open>Values shared by the pipeline stages\<close>

text \<open>
  A Python float is a finite number, one of the two infinities, or NaN. Only the
  distinction between these four kinds, and the order of the values, is modelled
  exactly; the rounding of arithmetic is the numeric library's and is taken as a
  parameter wherever a stage computes with it.
\<close>

datatype pyfloat = Fin real | PosInf | NegInf | NaN

text \<open>The exceptions the modelled functions raise.\<close>

datatype exn = RuntimeError | ValueError | KeyError | TypeError

fun np_isnan :: "pyfloat \<Rightarrow> bool" where
  "np_isnan NaN = True"
| "np_isnan _ = False"

fun np_isinf :: "pyfloat \<Rightarrow> bool" where
  "np_isinf PosInf = True"
| "np_isinf NegInf = True"
| "np_isinf _ = False"

definition is_finite :: "pyfloat \<Rightarrow> bool" where
  "is_finite x = (\<not> np_isnan x \<and> \<not> np_isinf x)"

text \<open>
  A Python dict keeps its keys in insertion order: an association list in which
  assigning to a key that is present replaces the value in place, and assigning to a
  new key appends it.
\<close>

type_synonym ('k, 'v) dict = "('k \<times> 'v) list"

fun dict_set :: "'k \<Rightarrow> 'v \<Rightarrow> ('k, 'v) dict \<Rightarrow> ('k, 'v) dict" where
  "dict_set k v [] = [(k, v)]"
| "dict_set k v ((k', v') # d) =
     (if k' = k then (k, v) # d else (k', v') # dict_set k v d)"

definition dict_get :: "('k, 'v) dict \<Rightarrow> 'k \<Rightarrow> 'v option" where
  "dict_get d k = map_of d k"

definition dict_keys :: "('k, 'v) dict \<Rightarrow> 'k list" where
  "dict_keys d = map fst d"

text \<open>Running a fallible function over a list stops at the first exception.\<close>

definition and_then :: "exn + 'a \<Rightarrow> ('a \<Rightarrow> exn + 'b) \<Rightarrow> exn + 'b" where
  "and_then r f = (case r of Inl e \<Rightarrow> Inl e | Inr x \<Rightarrow> f x)"

fun collect :: "('a \<Rightarrow> exn + 'b) \<Rightarrow> 'a list \<Rightarrow> exn + 'b list" where
  "collect f [] = Inr []"
| "collect f (x # xs) =
     (case f x of
        Inl e \<Rightarrow> Inl e
      | Inr y \<Rightarrow> (case collect f xs of Inl e \<Rightarrow> Inl e | Inr ys \<Rightarrow> Inr (y # ys)))"

section \<open>Windowed feature extractor (features.py)\<close>

text \<open>
  The statistics come from numpy and scipy. The maximum and the minimum select an
  element of the array, so they are modelled exactly: a NaN in the array is returned,
  and an empty array raises ValueError. The mean, the standard deviation, the square,
  the square root, the skewness and the kurtosis round, and their value on degenerate
  input depends on the library version: they are fields of the record. So are the
  rounded arithmetic of floats and the float a decimal literal of the source denotes.
\<close>

record numlib =
  lit :: "real \<Rightarrow> pyfloat"
  fadd :: "pyfloat \<Rightarrow> pyfloat \<Rightarrow> pyfloat"
  fsub :: "pyfloat \<Rightarrow> pyfloat \<Rightarrow> pyfloat"
  fmul :: "pyfloat \<Rightarrow> pyfloat \<Rightarrow> pyfloat"
  fdiv :: "pyfloat \<Rightarrow> pyfloat \<Rightarrow> pyfloat"
  np_mean :: "pyfloat list \<Rightarrow> pyfloat"
  np_std :: "pyfloat list \<Rightarrow> pyfloat"
  np_square :: "pyfloat \<Rightarrow> pyfloat"
  np_sqrt :: "pyfloat \<Rightarrow> pyfloat"
  stats_skew :: "pyfloat list \<Rightarrow> pyfloat"
  stats_kurtosis :: "pyfloat list \<Rightarrow> pyfloat"

fun float_le :: "pyfloat \<Rightarrow> pyfloat \<Rightarrow> bool" where
  "float_le NaN _ = False"
| "float_le _ NaN = False"
| "float_le NegInf _ = True"
| "float_le _ PosInf = True"
| "float_le (Fin a) (Fin b) = (a \<le> b)"
| "float_le _ _ = False"

definition float_max :: "pyfloat \<Rightarrow> pyfloat \<Rightarrow> pyfloat" where
  "float_max a b =
     (if np_isnan a then a else if np_isnan b then b
      else if float_le a b then b else a)"

definition float_min :: "pyfloat \<Rightarrow> pyfloat \<Rightarrow> pyfloat" where
  "float_min a b =
     (if np_isnan a then a else if np_isnan b then b
      else if float_le a b then a else b)"

definition np_max :: "pyfloat list \<Rightarrow> exn + pyfloat" where
  "np_max arr = (case arr of [] \<Rightarrow> Inl ValueError | x # xs \<Rightarrow> Inr (fold float_max xs x))"

definition np_min :: "pyfloat list \<Rightarrow> exn + pyfloat" where
  "np_min arr = (case arr of [] \<Rightarrow> Inl ValueError | x # xs \<Rightarrow> Inr (fold float_min xs x))"

text \<open>
  \<^verbatim>\<open>extract_basic_stats\<close>: the dict literal evaluates its seven entries in order, so
  the exception of the maximum on an empty array leaves the function before any dict
  exists.
\<close>

definition extract_basic_stats :: "numlib \<Rightarrow> pyfloat list \<Rightarrow> exn + (string, pyfloat) dict" where
  "extract_basic_stats lib arr =
     (let mean = np_mean lib arr;
          std = np_std lib arr
      in case np_max arr of
           Inl e \<Rightarrow> Inl e
         | Inr mx \<Rightarrow>
             (case np_min arr of
                Inl e \<Rightarrow> Inl e
              | Inr mn \<Rightarrow>
                  Inr [(''mean'', mean), (''std'', std), (''max'', mx), (''min'', mn),
                       (''rms'', np_sqrt lib (np_mean lib (map (np_square lib) arr))),
                       (''skew'', stats_skew lib arr),
                       (''kurt'', stats_kurtosis lib arr)]))"

text \<open>
  \<^verbatim>\<open>range(0, stop, step)\<close> and the slice \<^verbatim>\<open>series[a:b]\<close> on Python's integers: a zero
  step raises, and a slice bound is counted from the end when negative and clipped to
  the sequence.
\<close>

definition py_range0 :: "int \<Rightarrow> int \<Rightarrow> exn + int list" where
  "py_range0 stop step =
     (if step = 0 then Inl ValueError
      else if 0 < step then Inr (map (\<lambda>k. int k * step) [0 ..< nat ((stop + step - 1) div step)])
      else Inr (map (\<lambda>k. int k * step) [0 ..< nat ((- stop - step - 1) div (- step))]))"

definition slice_bound :: "nat \<Rightarrow> int \<Rightarrow> nat" where
  "slice_bound n i = (if i < 0 then nat (int n + i) else min n (nat i))"

definition py_slice :: "'a list \<Rightarrow> int \<Rightarrow> int \<Rightarrow> 'a list" where
  "py_slice xs a b =
     (let lo = slice_bound (length xs) a; hi = slice_bound (length xs) b
      in take (hi - lo) (drop lo xs))"

definition windowed_features ::
  "numlib \<Rightarrow> pyfloat list \<Rightarrow> int \<Rightarrow> int \<Rightarrow> exn + (string, pyfloat) dict list" where
  "windowed_features lib series window_size step =
     (case py_range0 (int (length series) - window_size + 1) step of
        Inl e \<Rightarrow> Inl e
      | Inr starts \<Rightarrow>
          collect (\<lambda>start. extract_basic_stats lib (py_slice series start (start + window_size)))
            starts)"

text \<open>
  \<^verbatim>\<open>signals_to_feature_vector\<close>: the channels in the order of the mapping, each
  statistic stored under \<^verbatim>\<open>name_statistic\<close>.
\<close>

fun store_stats :: "string \<Rightarrow> (string, pyfloat) dict \<Rightarrow> (string, pyfloat) dict \<Rightarrow> (string, pyfloat) dict" where
  "store_stats name [] features = features"
| "store_stats name ((k, v) # stats) features =
     store_stats name stats (dict_set (name @ ''_'' @ k) v features)"

fun feature_loop ::
  "numlib \<Rightarrow> (string, pyfloat list) dict \<Rightarrow> (string, pyfloat) dict \<Rightarrow> exn + (string, pyfloat) dict" where
  "feature_loop lib [] features = Inr features"
| "feature_loop lib ((name, arr) # signals) features =
     (case extract_basic_stats lib arr of
        Inl e \<Rightarrow> Inl e
      | Inr stats \<Rightarrow> feature_loop lib signals (store_stats name stats features))"

definition signals_to_feature_vector ::
  "numlib \<Rightarrow> (string, pyfloat list) dict \<Rightarrow> exn + (string, pyfloat) dict" where
  "signals_to_feature_vector lib signals = feature_loop lib signals []"

text \<open>
  \<^verbatim>\<open>sanitize_json\<close> of predict.py, on the flat mapping of floats the extractor
  returns: the inference client applies it to the feature vector before sending it.
\<close>

definition sanitize_json :: "(string, pyfloat) dict \<Rightarrow> (string, pyfloat) dict" where
  "sanitize_json d = map (\<lambda>(k, v). (k, if np_isnan v \<or> np_isinf v then Fin 0 else v)) d"

section \<open>Transient table parser (run_ngspice.py)\<close>

text \<open>
  Python's string operations on ASCII text (a \<^typ>\<open>char\<close> is a byte): the characters
  \<^verbatim>\<open>str.strip\<close> removes and \<^verbatim>\<open>\s\<close> matches, \<^verbatim>\<open>str.splitlines\<close>,
  \<^verbatim>\<open>re.split(r'\s+', s)\<close>, \<^verbatim>\<open>str.startswith\<close>, the substring test and
  \<^verbatim>\<open>str.replace("D", "E")\<close>.
\<close>

definition is_space :: "char \<Rightarrow> bool" where
  "is_space c = (c \<in> {CHR 0x09, CHR 0x0A, CHR 0x0B, CHR 0x0C, CHR 0x0D,
                        CHR 0x1C, CHR 0x1D, CHR 0x1E, CHR 0x1F, CHR 0x20})"

definition is_linebreak :: "char \<Rightarrow> bool" where
  "is_linebreak c = (c \<in> {CHR 0x0A, CHR 0x0B, CHR 0x0C, CHR 0x0D, CHR 0x1C, CHR 0x1D, CHR 0x1E})"

definition strip :: "string \<Rightarrow> string" where
  "strip s = rev (dropWhile is_space (rev (dropWhile is_space s)))"

fun splitlines_from :: "string \<Rightarrow> string \<Rightarrow> string list" where
  "splitlines_from cur [] = (if cur = [] then [] else [rev cur])"
| "splitlines_from cur [c] =
     (if is_linebreak c then [rev cur] else [rev (c # cur)])"
| "splitlines_from cur (c # d # cs) =
     (if c = CHR 0x0D \<and> d = CHR 0x0A then rev cur # splitlines_from [] cs
      else if is_linebreak c then rev cur # splitlines_from [] (d # cs)
      else splitlines_from (c # cur) (d # cs))"

definition splitlines :: "string \<Rightarrow> string list" where
  "splitlines txt = splitlines_from [] txt"

function re_split_from :: "string \<Rightarrow> string \<Rightarrow> string list" where
  "re_split_from cur [] = [rev cur]"
| "re_split_from cur (c # cs) =
     (if is_space c then rev cur # re_split_from [] (dropWhile is_space cs)
      else re_split_from (c # cur) cs)"
  by pat_completeness auto
termination
  by (relation "measure (\<lambda>(cur, s). length s)")
     (auto simp: less_Suc_eq_le length_dropWhile_le)

definition re_split_ws :: "string \<Rightarrow> string list" where
  "re_split_ws s = re_split_from [] s"

definition startswith :: "string \<Rightarrow> string \<Rightarrow> bool" where
  "startswith s p = (take (length p) s = p)"

fun contains :: "string \<Rightarrow> string \<Rightarrow> bool" where
  "contains [] sub = (sub = [])"
| "contains (c # cs) sub = (startswith (c # cs) sub \<or> contains cs sub)"

definition replace_D_E :: "string \<Rightarrow> string" where
  "replace_D_E s = map (\<lambda>c. if c = CHR ''D'' then CHR ''E'' else c) s"

text \<open>
  The strings \<^verbatim>\<open>float()\<close> accepts: after stripping, an optional sign, then
  \<^verbatim>\<open>inf\<close>, \<^verbatim>\<open>infinity\<close> or \<^verbatim>\<open>nan\<close> in any case, or a decimal number with an
  optional exponent; digits may be grouped by single underscores. Any other string
  raises ValueError. The value of an accepted string is the library's rounding of
  it (an overflowing literal is an infinity): the parameter \<open>fv\<close>.
\<close>

definition is_digit :: "char \<Rightarrow> bool" where
  "is_digit c = (c \<in> set ''0123456789'')"

fun digits_tail :: "string \<Rightarrow> string" where
  "digits_tail [] = []"
| "digits_tail [c] = (if is_digit c then [] else [c])"
| "digits_tail (c # d # cs) =
     (if is_digit c then digits_tail (d # cs)
      else if c = CHR ''_'' \<and> is_digit d then digits_tail (d # cs)
      else c # d # cs)"

definition digitpart :: "string \<Rightarrow> string option" where
  "digitpart s = (case s of [] \<Rightarrow> None | c # cs \<Rightarrow> if is_digit c then Some (digits_tail cs) else None)"

definition number :: "string \<Rightarrow> string option" where
  "number s =
     (case s of
        [] \<Rightarrow> None
      | c # cs \<Rightarrow>
          if c = CHR ''.'' then digitpart cs
          else (case digitpart s of
                  None \<Rightarrow> None
                | Some r \<Rightarrow>
                    (case r of
                       [] \<Rightarrow> Some []
                     | c' # r' \<Rightarrow>
                         if c' = CHR ''.''
                         then (case digitpart r' of None \<Rightarrow> Some r' | Some r'' \<Rightarrow> Some r'')
                         else Some r)))"

definition skip_sign :: "string \<Rightarrow> string" where
  "skip_sign s = (case s of [] \<Rightarrow> [] | c # cs \<Rightarrow> if c = CHR ''+'' \<or> c = CHR ''-'' then cs else s)"

definition exponent :: "string \<Rightarrow> string option" where
  "exponent s =
     (case s of
        [] \<Rightarrow> Some []
      | c # cs \<Rightarrow> if c = CHR ''e'' \<or> c = CHR ''E'' then digitpart (skip_sign cs) else Some s)"

definition ascii_lower :: "char \<Rightarrow> char" where
  "ascii_lower c =
     (if c \<in> set ''ABCDEFGHIJKLMNOPQRSTUVWXYZ'' then char_of (of_char c + (32::nat)) else c)"

definition float_literal :: "string \<Rightarrow> bool" where
  "float_literal s =
     (let u = skip_sign (strip s)
      in map ascii_lower u \<in> {''inf'', ''infinity'', ''nan''} \<or>
         (case number u of None \<Rightarrow> False | Some r \<Rightarrow> exponent r = Some []))"

definition py_float :: "(string \<Rightarrow> pyfloat) \<Rightarrow> string \<Rightarrow> exn + pyfloat" where
  "py_float fv s = (if float_literal s then Inr (fv s) else Inl ValueError)"

text \<open>
  \<^verbatim>\<open>parse_printed_table\<close>, from the text of the output file to the column mapping it
  writes as JSON. The header is the first line that starts with \<^verbatim>\<open>Index\<close> once
  stripped and has \<^verbatim>\<open>time\<close> somewhere in it; without one the function raises
  RuntimeError. The data loop stops at a blank line and at a line starting with
  \<^verbatim>\<open>Index\<close>, skips a line with fewer parts than headers and cuts the others to the
  number of headers. The CSV file written in between takes strings only and is not
  part of the result.
\<close>

definition is_header :: "string \<Rightarrow> bool" where
  "is_header line = (startswith (strip line) ''Index'' \<and> contains line ''time'')"

fun find_header :: "string list \<Rightarrow> nat option" where
  "find_header [] = None"
| "find_header (line # lines) =
     (if is_header line then Some 0 else map_option Suc (find_header lines))"

fun read_data :: "nat \<Rightarrow> string list \<Rightarrow> string list list" where
  "read_data n [] = []"
| "read_data n (line # lines) =
     (if strip line = [] then []
      else if startswith (strip line) ''Index'' then []
      else (let parts = re_split_ws (strip line)
            in if length parts < n then read_data n lines
               else take n parts # read_data n lines))"

definition init_columns :: "string list \<Rightarrow> (string, pyfloat list) dict" where
  "init_columns headers = fold (\<lambda>h d. dict_set h [] d) headers []"

text \<open>
  \<^verbatim>\<open>col_data[h].append(float(v.replace("D", "E")))\<close>: the column is looked up
  first, then the token is converted, then the value is appended.
\<close>

fun append_values ::
  "(string \<Rightarrow> pyfloat) \<Rightarrow> (string \<times> string) list \<Rightarrow> (string, pyfloat list) dict
     \<Rightarrow> exn + (string, pyfloat list) dict" where
  "append_values fv [] col_data = Inr col_data"
| "append_values fv ((h, v) # hvs) col_data =
     (case dict_get col_data h of
        None \<Rightarrow> Inl KeyError
      | Some col \<Rightarrow>
          (case py_float fv (replace_D_E v) of
             Inl e \<Rightarrow> Inl e
           | Inr x \<Rightarrow> append_values fv hvs (dict_set h (col @ [x]) col_data)))"

fun fill_columns ::
  "(string \<Rightarrow> pyfloat) \<Rightarrow> string list \<Rightarrow> string list list \<Rightarrow> (string, pyfloat list) dict
     \<Rightarrow> exn + (string, pyfloat list) dict" where
  "fill_columns fv headers [] col_data = Inr col_data"
| "fill_columns fv headers (row # rows) col_data =
     (case append_values fv (zip headers row) col_data of
        Inl e \<Rightarrow> Inl e
      | Inr col_data' \<Rightarrow> fill_columns fv headers rows col_data')"

definition table_headers :: "string list \<Rightarrow> nat \<Rightarrow> string list" where
  "table_headers lines i = re_split_ws (strip (lines ! i))"

definition table_rows :: "string list \<Rightarrow> nat \<Rightarrow> string list list" where
  "table_rows lines i = read_data (length (table_headers lines i)) (drop (Suc i) lines)"

definition parse_lines :: "(string \<Rightarrow> pyfloat) \<Rightarrow> string list \<Rightarrow> exn + (string, pyfloat list) dict" where
  "parse_lines fv lines =
     (case find_header lines of
        None \<Rightarrow> Inl RuntimeError
      | Some i \<Rightarrow>
          fill_columns fv (table_headers lines i) (table_rows lines i)
            (init_columns (table_headers lines i)))"

definition parse_printed_table :: "(string \<Rightarrow> pyfloat) \<Rightarrow> string \<Rightarrow> exn + (string, pyfloat list) dict" where
  "parse_printed_table fv txt = parse_lines fv (splitlines txt)"

section \<open>Sensor emulation layer (sensor_emulator.py)\<close>

text \<open>
  The simulation data is the JSON object the parser wrote: column name to values.
  \<^verbatim>\<open>np.random.randn\<close> reads and advances the generator's hidden state: the state is
  passed explicitly, and one draw is the parameter \<open>randn\<close>.
\<close>

type_synonym simdata = "(string, pyfloat list) dict"

fun randn_list :: "('r \<Rightarrow> pyfloat \<times> 'r) \<Rightarrow> nat \<Rightarrow> 'r \<Rightarrow> pyfloat list \<times> 'r" where
  "randn_list randn 0 g = ([], g)"
| "randn_list randn (Suc n) g =
     (let (z, g') = randn g; (zs, g'') = randn_list randn n g' in (z # zs, g''))"

fun np_abs :: "pyfloat \<Rightarrow> pyfloat" where
  "np_abs (Fin r) = Fin \<bar>r\<bar>"
| "np_abs PosInf = PosInf"
| "np_abs NegInf = PosInf"
| "np_abs NaN = NaN"

text \<open>
  \<^verbatim>\<open>emulate_zmpt\<close> and \<^verbatim>\<open>emulate_acs\<close>: a missing column makes
  \<^verbatim>\<open>simdata.get\<close> return None, and the arithmetic on it raises TypeError.
\<close>

definition emulate_zmpt ::
  "numlib \<Rightarrow> ('r \<Rightarrow> pyfloat \<times> 'r) \<Rightarrow> 'r \<Rightarrow> simdata \<Rightarrow> string \<Rightarrow> exn + pyfloat list \<times> 'r" where
  "emulate_zmpt lib randn g simdata voltage_node_key =
     (case dict_get simdata voltage_node_key of
        None \<Rightarrow> Inl TypeError
      | Some v \<Rightarrow>
          (let (noise, g') = randn_list randn (length v) g
           in Inr (map2 (\<lambda>x z. fadd lib (fadd lib (lit lib 1.5) (fmul lib (lit lib 0.006) x))
                                  (fmul lib (lit lib 0.01) z)) v noise, g')))"

definition emulate_acs ::
  "numlib \<Rightarrow> ('r \<Rightarrow> pyfloat \<times> 'r) \<Rightarrow> 'r \<Rightarrow> simdata \<Rightarrow> string \<Rightarrow> exn + pyfloat list \<times> 'r" where
  "emulate_acs lib randn g simdata current_key =
     (case dict_get simdata current_key of
        None \<Rightarrow> Inl TypeError
      | Some i \<Rightarrow>
          (let (noise, g') = randn_list randn (length i) g
           in Inr (map2 (\<lambda>x z. fadd lib (fadd lib (fdiv lib (lit lib 3.3) (lit lib 2.0))
                                             (fmul lib (lit lib 0.066) x))
                                  (fmul lib (lit lib 0.01) z)) i noise, g')))"

definition emulate_ntc :: "numlib \<Rightarrow> simdata \<Rightarrow> string \<Rightarrow> exn + pyfloat list" where
  "emulate_ntc lib simdata temp_node_key =
     and_then
       (case dict_get simdata temp_node_key of
          None \<Rightarrow>
            (case dict_get simdata ''time'' of
               None \<Rightarrow> Inl KeyError
             | Some t \<Rightarrow> Inr (map (\<lambda>x. fadd lib (lit lib 30.0) (fmul lib (lit lib 0.01) x)) t))
        | Some v \<Rightarrow>
            Inr (map (\<lambda>x. fadd lib (lit lib 25.0)
                            (fmul lib (fsub lib x (np_mean lib v)) (lit lib 5.0))) v))
       (\<lambda>temps. Inr (map (\<lambda>x. fadd lib (lit lib 1.65)
                                 (fmul lib (fsub lib x (lit lib 25.0)) (lit lib 0.01))) temps))"

fun piezo_loop ::
  "numlib \<Rightarrow> ('r \<Rightarrow> pyfloat \<times> 'r) \<Rightarrow> pyfloat \<Rightarrow> pyfloat list \<Rightarrow> 'r \<Rightarrow> pyfloat list \<times> 'r" where
  "piezo_loop lib randn s [] g = ([], g)"
| "piezo_loop lib randn s (x # env) g =
     (let s' = fadd lib (fmul lib (lit lib 0.05) x)
                        (fmul lib (fsub lib (lit lib 1) (lit lib 0.05)) s);
          (z, g') = randn g;
          (out, g'') = piezo_loop lib randn s' env g'
      in (fadd lib s' (fmul lib (lit lib 0.005) z) # out, g''))"

definition emulate_piezo ::
  "numlib \<Rightarrow> ('r \<Rightarrow> pyfloat \<times> 'r) \<Rightarrow> 'r \<Rightarrow> simdata \<Rightarrow> string \<Rightarrow> exn + pyfloat list \<times> 'r" where
  "emulate_piezo lib randn g simdata piezo_key =
     and_then
       (case dict_get simdata piezo_key of
          Some arr \<Rightarrow> Inr arr
        | None \<Rightarrow>
            (case dict_get simdata ''time'' of
               None \<Rightarrow> Inl KeyError
             | Some t \<Rightarrow> Inr (replicate (length t) (Fin 0))))
       (\<lambda>arr. Inr (piezo_loop lib randn (Fin 0) (map np_abs arr) g))"

text \<open>
  \<^verbatim>\<open>emulate_relay\<close>: the column as it is, or zeros shaped like the time axis when
  the column is missing (KeyError when the time axis is missing too).
\<close>

definition emulate_relay :: "simdata \<Rightarrow> string \<Rightarrow> exn + pyfloat list" where
  "emulate_relay simdata relay_key =
     (case dict_get simdata relay_key of
        Some arr \<Rightarrow> Inr arr
      | None \<Rightarrow>
          (case dict_get simdata ''time'' of
             None \<Rightarrow> Inl KeyError
           | Some t \<Rightarrow> Inr (replicate (length t) (Fin 0))))"

text \<open>
  \<^verbatim>\<open>run_emulator\<close>: the output starts with the time axis (empty when the data has
  none); each of the five channels is computed and stored only when
  \<^verbatim>\<open>mapping.get(key) in simdata\<close>. The result is the dict written to the output file,
  with the generator's state after the run.
\<close>

definition default_mapping :: "(string, string) dict" where
  "default_mapping =
     [(''voltage_node_key'', ''V(n_ac)''), (''current_key'', ''I(V1)''),
      (''temp_node_key'', ''V(n_therm)''), (''piezo_key'', ''V(n_piezo)''),
      (''relay_key'', ''V(n_relay)'')]"

definition resolve_mapping :: "(string, string) dict option \<Rightarrow> (string, string) dict" where
  "resolve_mapping mapping_arg = (case mapping_arg of None \<Rightarrow> default_mapping | Some m \<Rightarrow> m)"

definition source_present :: "(string, string) dict \<Rightarrow> simdata \<Rightarrow> string \<Rightarrow> bool" where
  "source_present mapping simdata key =
     (case dict_get mapping key of
        None \<Rightarrow> False
      | Some col \<Rightarrow> col \<in> set (dict_keys simdata))"

definition emit_channel ::
  "(string, string) dict \<Rightarrow> simdata \<Rightarrow> string \<Rightarrow> string
     \<Rightarrow> ('r \<Rightarrow> simdata \<Rightarrow> string \<Rightarrow> exn + pyfloat list \<times> 'r)
     \<Rightarrow> simdata \<times> 'r \<Rightarrow> exn + simdata \<times> 'r" where
  "emit_channel mapping simdata key gpio emulate st =
     (if source_present mapping simdata key
      then (case dict_get mapping key of
              None \<Rightarrow> Inl KeyError
            | Some col \<Rightarrow>
                and_then (emulate (snd st) simdata col)
                  (\<lambda>(ch, g'). Inr (dict_set gpio ch (fst st), g')))
      else Inr st)"

definition run_emulator ::
  "numlib \<Rightarrow> ('r \<Rightarrow> pyfloat \<times> 'r) \<Rightarrow> 'r \<Rightarrow> simdata \<Rightarrow> (string, string) dict option
     \<Rightarrow> exn + simdata \<times> 'r" where
  "run_emulator lib randn g simdata mapping_arg =
     (let mapping = resolve_mapping mapping_arg;
          outdict = [(''time'', case dict_get simdata ''time'' of None \<Rightarrow> [] | Some t \<Rightarrow> t)]
      in and_then (emit_channel mapping simdata ''voltage_node_key'' ''GPIO34''
                     (emulate_zmpt lib randn) (outdict, g))
        (\<lambda>st. and_then (emit_channel mapping simdata ''current_key'' ''GPIO35''
                          (emulate_acs lib randn) st)
        (\<lambda>st. and_then (emit_channel mapping simdata ''temp_node_key'' ''GPIO32''
                          (\<lambda>g sd k. and_then (emulate_ntc lib sd k) (\<lambda>ch. Inr (ch, g))) st)
        (\<lambda>st. and_then (emit_channel mapping simdata ''piezo_key'' ''GPIO33''
                          (emulate_piezo lib randn) st)
        (\<lambda>st. emit_channel mapping simdata ''relay_key'' ''GPIO26''
                 (\<lambda>g sd k. and_then (emulate_relay sd k) (\<lambda>ch. Inr (ch, g))) st)))))"

section \<open>Row unifier (unify_logger.py)\<close>

text \<open>
  \<^verbatim>\<open>unify\<close>: one row per index of the time axis; every other key of the input gets
  a field, the value at that index or None past the end of its array. The result is
  the list of rows written to the output file.
\<close>

fun fill_row ::
  "simdata \<Rightarrow> nat \<Rightarrow> string list \<Rightarrow> (string, pyfloat option) dict
     \<Rightarrow> exn + (string, pyfloat option) dict" where
  "fill_row d i [] row = Inr row"
| "fill_row d i (k # keys) row =
     (case dict_get d k of
        None \<Rightarrow> Inl KeyError
      | Some arr \<Rightarrow>
          fill_row d i keys (dict_set k (if i < length arr then Some (arr ! i) else None) row))"

definition unify :: "simdata \<Rightarrow> exn + (string, pyfloat option) dict list" where
  "unify d =
     (case dict_get d ''time'' of
        None \<Rightarrow> Inl KeyError
      | Some t \<Rightarrow>
          (let keys = filter (\<lambda>k. k \<noteq> ''time'') (dict_keys d)
           in collect (\<lambda>i. fill_row d i keys [(''time'', Some (t ! i))]) [0 ..< length t]))"

section \<open>Vocabulary of the statements\<close>

text \<open>
  The names of the seven statistics, and the statistics of one channel under their
  composite keys: the vocabulary of the statements about the feature vector.
\<close>

definition stat_names :: "string list" where
  "stat_names = [''mean'', ''std'', ''max'', ''min'', ''rms'', ''skew'', ''kurt'']"

definition flat_stats :: "string \<Rightarrow> (string, pyfloat) dict \<Rightarrow> (string, pyfloat) dict" where
  "flat_stats name stats = map (\<lambda>(k, v). (name @ ''_'' @ k, v)) stats"

text \<open>
  The vocabulary of the statements about the parser: the parts of a line, the lines the
  data loop reads on, the rows whose tokens all convert, the values a row contributes to
  the column of a name, and the table built from the header names and the kept rows.
\<close>

definition tokens :: "string \<Rightarrow> string list" where
  "tokens line = re_split_ws (strip line)"

definition data_line :: "string \<Rightarrow> bool" where
  "data_line line = (strip line \<noteq> [] \<and> \<not> startswith (strip line) ''Index'')"

definition row_ok :: "string list \<Rightarrow> bool" where
  "row_ok row = list_all (\<lambda>tok. float_literal (replace_D_E tok)) row"

definition column_values :: "(string \<Rightarrow> pyfloat) \<Rightarrow> string \<Rightarrow> (string \<times> string) list \<Rightarrow> pyfloat list" where
  "column_values fv h hvs = map (\<lambda>p. fv (replace_D_E (snd p))) (filter (\<lambda>p. fst p = h) hvs)"

definition table_of :: "(string \<Rightarrow> pyfloat) \<Rightarrow> string list \<Rightarrow> string list list \<Rightarrow> (string, pyfloat list) dict" where
  "table_of fv headers rows =
     map (\<lambda>(k, c). (k, concat (map (\<lambda>row. column_values fv k (zip headers row)) rows)))
       (init_columns headers)"

text \<open>The field of a row: the value of a channel at an index, or None past its end.\<close>

definition cell :: "pyfloat list \<Rightarrow> nat \<Rightarrow> pyfloat option" where
  "cell arr i = (if i < length arr then Some (arr ! i) else None)"

text \<open>
  The header line as the spec words it: the first whitespace-delimited token of the line
  is \<^verbatim>\<open>Index\<close>, and \<^verbatim>\<open>time\<close> is one of its tokens. The code's own test is
  \<open>is_header\<close> above; this second definition is what the two are compared by.
\<close>

definition spec_header_line :: "string \<Rightarrow> bool" where
  "spec_header_line line =
     (case tokens line of [] \<Rightarrow> False | first # rest \<Rightarrow> first = ''Index'' \<and> ''time'' \<in> set (first # rest))"

section \<open>Properties of the windowed feature extractor\<close>

lemma int_le_div_iff:
  fixes a b c :: int
  assumes "0 < c"
  shows "a \<le> b div c \<longleftrightarrow> a * c \<le> b"
proof -
  have split: "b = b div c * c + b mod c" by simp
  have r0: "0 \<le> b mod c" and r1: "b mod c < c" using assms by simp_all
  show ?thesis
  proof
    assume "a \<le> b div c"
    then have "a * c \<le> b div c * c" using assms by (simp add: mult_right_mono)
    with split r0 show "a * c \<le> b" by linarith
  next
    assume "a * c \<le> b"
    with split r1 have "a * c < b div c * c + c" by linarith
    then have "a * c < (b div c + 1) * c" by (simp add: algebra_simps)
    then have "a < b div c + 1" using assms by (simp add: mult_less_cancel_right)
    then show "a \<le> b div c" by simp
  qed
qed

lemma collect_all_ok:
  assumes "\<And>x. x \<in> set xs \<Longrightarrow> \<exists>y. f x = Inr y"
  shows "\<exists>ys. collect f xs = Inr ys \<and> length ys = length xs \<and>
           (\<forall>k < length xs. f (xs ! k) = Inr (ys ! k))"
  using assms
proof (induction xs)
  case Nil
  then show ?case by simp
next
  case (Cons x xs)
  from Cons.prems obtain y where y: "f x = Inr y" by auto
  from Cons obtain ys where ys: "collect f xs = Inr ys" "length ys = length xs"
    "\<forall>k < length xs. f (xs ! k) = Inr (ys ! k)" by auto
  have "\<forall>k < length (x # xs). f ((x # xs) ! k) = Inr ((y # ys) ! k)"
    using y ys(3) by (auto simp: nth_Cons split: nat.splits)
  then show ?case using y ys by simp
qed

lemma extract_basic_stats_nonempty:
  "arr \<noteq> [] \<Longrightarrow> \<exists>stats. extract_basic_stats lib arr = Inr stats"
  by (cases arr) (simp_all add: extract_basic_stats_def np_max_def np_min_def Let_def)

lemma extract_basic_stats_empty: "extract_basic_stats lib [] = Inl ValueError"
  by (simp add: extract_basic_stats_def np_max_def)

lemma py_slice_window:
  assumes "0 \<le> s" "0 \<le> w" "s + w \<le> int (length xs)"
  shows "py_slice xs s (s + w) = take (nat w) (drop (nat s) xs)"
proof -
  have "slice_bound (length xs) s = nat s" using assms by (simp add: slice_bound_def)
  moreover have "slice_bound (length xs) (s + w) = nat s + nat w"
    using assms by (simp add: slice_bound_def nat_add_distrib)
  ultimately show ?thesis by (simp add: py_slice_def)
qed

lemma range_count:
  assumes "1 \<le> step"
  shows "k < nat ((stop + step - 1) div step) \<longleftrightarrow> int k * step < stop"
proof -
  have "k < nat ((stop + step - 1) div step) \<longleftrightarrow> int k + 1 \<le> (stop + step - 1) div step"
    by auto
  also have "\<dots> \<longleftrightarrow> (int k + 1) * step \<le> stop + step - 1"
    using assms by (simp add: int_le_div_iff)
  also have "\<dots> \<longleftrightarrow> int k * step < stop"
    by (auto simp: algebra_simps)
  finally show ?thesis .
qed

lemma windowed_features_windows:
  assumes ws: "1 \<le> window_size" and st: "1 \<le> step"
  shows "\<exists>ds. windowed_features lib series window_size step = Inr ds \<and>
           (\<forall>k. k < length ds \<longleftrightarrow> int k * step \<le> int (length series) - window_size) \<and>
           (\<forall>k < length ds.
              length (take (nat window_size) (drop (nat (int k * step)) series)) = nat window_size \<and>
              extract_basic_stats lib (take (nat window_size) (drop (nat (int k * step)) series))
                = Inr (ds ! k))"
proof -
  define n where "n = nat ((int (length series) - window_size + 1 + step - 1) div step)"
  define starts where "starts = map (\<lambda>k. int k * step) [0 ..< n]"
  define f where
    "f = (\<lambda>start. extract_basic_stats lib (py_slice series start (start + window_size)))"
  have rng: "py_range0 (int (length series) - window_size + 1) step = Inr starts"
    using st by (simp add: py_range0_def starts_def n_def)
  have cnt: "k < n \<longleftrightarrow> int k * step \<le> int (length series) - window_size" for k
    using range_count [OF st, of k "int (length series) - window_size + 1"]
    by (simp add: n_def)
  have win: "py_slice series (int k * step) (int k * step + window_size)
               = take (nat window_size) (drop (nat (int k * step)) series) \<and>
             length (take (nat window_size) (drop (nat (int k * step)) series)) = nat window_size"
    if "k < n" for k
  proof -
    from that cnt have le: "int k * step + window_size \<le> int (length series)" by simp
    have nonneg: "0 \<le> int k * step" using st by simp
    have "py_slice series (int k * step) (int k * step + window_size)
            = take (nat window_size) (drop (nat (int k * step)) series)"
      using py_slice_window [OF nonneg _ le] ws by simp
    moreover have "nat window_size \<le> length series - nat (int k * step)"
      using le nonneg ws by linarith
    ultimately show ?thesis by simp
  qed
  have ok: "\<exists>y. f x = Inr y" if "x \<in> set starts" for x
  proof -
    from that obtain k where k: "k < n" "x = int k * step" by (auto simp: starts_def)
    from win [OF k(1)] ws have "py_slice series x (x + window_size) \<noteq> []"
      unfolding k(2) by auto
    then show ?thesis unfolding f_def by (rule extract_basic_stats_nonempty)
  qed
  from collect_all_ok [of starts f, OF ok] obtain ds where ds:
    "collect f starts = Inr ds" "length ds = length starts"
    "\<forall>k < length starts. f (starts ! k) = Inr (ds ! k)" by blast
  have len: "length ds = n" using ds(2) by (simp add: starts_def)
  have "windowed_features lib series window_size step = Inr ds"
    using rng ds(1) by (simp add: windowed_features_def f_def)
  moreover have "\<forall>k. k < length ds \<longleftrightarrow> int k * step \<le> int (length series) - window_size"
    using cnt len by simp
  moreover have "\<forall>k < length ds.
      length (take (nat window_size) (drop (nat (int k * step)) series)) = nat window_size \<and>
      extract_basic_stats lib (take (nat window_size) (drop (nat (int k * step)) series)) = Inr (ds ! k)"
  proof (intro allI impI)
    fix k assume "k < length ds"
    then have k: "k < n" using len by simp
    then have "f (starts ! k) = Inr (ds ! k)" using ds(3) by (simp add: starts_def)
    moreover have "starts ! k = int k * step" using k by (simp add: starts_def)
    ultimately show "length (take (nat window_size) (drop (nat (int k * step)) series)) = nat window_size \<and>
      extract_basic_stats lib (take (nat window_size) (drop (nat (int k * step)) series)) = Inr (ds ! k)"
      using win [OF k] by (simp add: f_def)
  qed
  ultimately show ?thesis by blast
qed


lemma list_of_length_4: "length xs = 4 \<Longrightarrow> \<exists>a b c d. xs = [a, b, c, d]"
  by (auto simp: length_Suc_conv eval_nat_numeral)

lemma windowed_features_250:
  assumes "length series = 250"
  shows "\<exists>ds. windowed_features lib series 100 50 = Inr ds \<and> length ds = 4 \<and>
           (\<forall>k < 4. extract_basic_stats lib (take 100 (drop (50 * k) series)) = Inr (ds ! k))"
proof -
  have "(1::int) \<le> 100" and "(1::int) \<le> 50" by simp_all
  from windowed_features_windows [OF this, of lib series]
  obtain ds where wf: "windowed_features lib series 100 50 = Inr ds"
    and cnt: "\<forall>k. k < length ds \<longleftrightarrow> int k * 50 \<le> int (length series) - 100"
    and win: "\<forall>k < length ds.
        length (take (nat 100) (drop (nat (int k * 50)) series)) = nat 100 \<and>
        extract_basic_stats lib (take (nat 100) (drop (nat (int k * 50)) series)) = Inr (ds ! k)"
    by blast
  have "k < length ds \<longleftrightarrow> k < 4" for k
  proof -
    have "k < length ds \<longleftrightarrow> int k * 50 \<le> 150" using cnt assms by simp
    also have "\<dots> \<longleftrightarrow> k < 4" by presburger
    finally show ?thesis .
  qed
  note iff = this
  have "\<not> 4 < length ds" using iff [of 4] by simp
  moreover have "3 < length ds" using iff [of 3] by simp
  ultimately have len: "length ds = 4" by linarith
  have ds: "windowed_features lib series 100 50 = Inr ds"
    "\<forall>k < length ds. extract_basic_stats lib (take 100 (drop (nat (int k * 50)) series)) = Inr (ds ! k)"
    using wf win by simp_all
  have "\<forall>k < 4. extract_basic_stats lib (take 100 (drop (50 * k) series)) = Inr (ds ! k)"
  proof (intro allI impI)
    fix k :: nat assume "k < 4"
    with ds(2) len have "extract_basic_stats lib (take 100 (drop (nat (int k * 50)) series)) = Inr (ds ! k)"
      by simp
    moreover have "nat (int k * 50) = 50 * k" by (simp add: nat_mult_distrib)
    ultimately show "extract_basic_stats lib (take 100 (drop (50 * k) series)) = Inr (ds ! k)" by simp
  qed
  with ds(1) len show ?thesis by blast
qed

lemma windowed_features_short:
  assumes "1 \<le> window_size" "1 \<le> step" "int (length series) < window_size"
  shows "windowed_features lib series window_size step = Inr []"
proof -
  from windowed_features_windows [OF assms(1,2), of lib series]
  obtain ds where ds: "windowed_features lib series window_size step = Inr ds"
    "\<forall>k. k < length ds \<longleftrightarrow> int k * step \<le> int (length series) - window_size"
    by blast
  from ds(2) assms(3) have "\<not> 0 < length ds" by simp
  with ds(1) show ?thesis by simp
qed

text \<open>
  Claim C2, as the code has it. With \<^verbatim>\<open>window_size=100\<close> and \<^verbatim>\<open>step=50\<close>, a series
  of 250 samples gives four windows, not three: the window starts are 0, 50, 100 and 150,
  since \<^verbatim>\<open>range(0, 151, 50)\<close> includes 150 and the window 150..249 is a full one. A
  series of 90 samples gives no window and no error.
\<close>

theorem windowed_features_250_and_90:
  "(length series = 250 \<longrightarrow>
      (\<exists>d0 d1 d2 d3.
         windowed_features lib series 100 50 = Inr [d0, d1, d2, d3] \<and>
         extract_basic_stats lib (take 100 (drop 0 series)) = Inr d0 \<and>
         extract_basic_stats lib (take 100 (drop 50 series)) = Inr d1 \<and>
         extract_basic_stats lib (take 100 (drop 100 series)) = Inr d2 \<and>
         extract_basic_stats lib (take 100 (drop 150 series)) = Inr d3)) \<and>
   (length series' = 90 \<longrightarrow> windowed_features lib series' 100 50 = Inr [])"
proof (intro conjI impI)
  assume "length series = 250"
  from windowed_features_250 [OF this, of lib] obtain ds where
    ds: "windowed_features lib series 100 50 = Inr ds" "length ds = 4"
    "\<forall>k < 4. extract_basic_stats lib (take 100 (drop (50 * k) series)) = Inr (ds ! k)"
    by blast
  from ds(2) obtain d0 d1 d2 d3 where eq: "ds = [d0, d1, d2, d3]"
    using list_of_length_4 by blast
  have "extract_basic_stats lib (take 100 (drop 0 series)) = Inr d0"
    "extract_basic_stats lib (take 100 (drop 50 series)) = Inr d1"
    "extract_basic_stats lib (take 100 (drop 100 series)) = Inr d2"
    "extract_basic_stats lib (take 100 (drop 150 series)) = Inr d3"
    using ds(3) [rule_format, of 0] ds(3) [rule_format, of 1] ds(3) [rule_format, of 2]
      ds(3) [rule_format, of 3] unfolding eq by simp_all
  with ds(1) show "\<exists>d0 d1 d2 d3.
         windowed_features lib series 100 50 = Inr [d0, d1, d2, d3] \<and>
         extract_basic_stats lib (take 100 (drop 0 series)) = Inr d0 \<and>
         extract_basic_stats lib (take 100 (drop 50 series)) = Inr d1 \<and>
         extract_basic_stats lib (take 100 (drop 100 series)) = Inr d2 \<and>
         extract_basic_stats lib (take 100 (drop 150 series)) = Inr d3"
    unfolding eq by blast
next
  assume "length series' = 90"
  then show "windowed_features lib series' 100 50 = Inr []"
    by (intro windowed_features_short) simp_all
qed

theorem windowed_features_250_and_90_witness:
  "\<forall>lib. length (replicate 250 (Fin 0)) = 250 \<and>
     (\<exists>d0 d1 d2 d3. windowed_features lib (replicate 250 (Fin 0)) 100 50 = Inr [d0, d1, d2, d3]) \<and>
     length (replicate 90 (Fin 0)) = 90 \<and>
     windowed_features lib (replicate 90 (Fin 0)) 100 50 = Inr []"
proof
  fix lib
  from windowed_features_250_and_90 [of "replicate 250 (Fin 0)" lib "replicate 90 (Fin 0)"]
  show "length (replicate 250 (Fin 0)) = 250 \<and>
     (\<exists>d0 d1 d2 d3. windowed_features lib (replicate 250 (Fin 0)) 100 50 = Inr [d0, d1, d2, d3]) \<and>
     length (replicate 90 (Fin 0)) = 90 \<and>
     windowed_features lib (replicate 90 (Fin 0)) 100 50 = Inr []"
    by auto
qed

text \<open>
  The claim's count fails on a series of 250 zeros: the result has four statistic sets.
\<close>

theorem three_windows_counterexample:
  "\<forall>lib. \<exists>ds. windowed_features lib (replicate 250 (Fin 0)) 100 50 = Inr ds \<and>
     length ds = 4 \<and> length ds \<noteq> 3"
proof
  fix lib
  from windowed_features_250 [of "replicate 250 (Fin 0)" lib]
  show "\<exists>ds. windowed_features lib (replicate 250 (Fin 0)) 100 50 = Inr ds \<and>
     length ds = 4 \<and> length ds \<noteq> 3" by auto
qed

text \<open>
  Claim C3. For \<^verbatim>\<open>window_size >= 1\<close> and \<^verbatim>\<open>step >= 1\<close> the extractor returns, without
  raising, one statistic set for each \<open>k\<close> with \<open>k * step \<le> len(series) - window_size\<close> and
  no other, in increasing order of \<open>k\<close>; entry \<open>k\<close> is the statistic set of the
  \<open>window_size\<close> samples starting at \<open>k * step\<close>. A series shorter than the window gives
  the empty list.
\<close>

theorem windowed_features_every_window:
  assumes "1 \<le> window_size" and "1 \<le> step"
  shows "\<exists>ds. windowed_features lib series window_size step = Inr ds \<and>
           (\<forall>k. k < length ds \<longleftrightarrow> int k * step \<le> int (length series) - window_size) \<and>
           (\<forall>k < length ds.
              length (take (nat window_size) (drop (nat (int k * step)) series)) = nat window_size \<and>
              extract_basic_stats lib (take (nat window_size) (drop (nat (int k * step)) series))
                = Inr (ds ! k)) \<and>
           (int (length series) < window_size \<longrightarrow> ds = [])"
proof -
  from windowed_features_windows [OF assms, of lib series] obtain ds where
    ds: "windowed_features lib series window_size step = Inr ds"
    "\<forall>k. k < length ds \<longleftrightarrow> int k * step \<le> int (length series) - window_size"
    "\<forall>k < length ds.
              length (take (nat window_size) (drop (nat (int k * step)) series)) = nat window_size \<and>
              extract_basic_stats lib (take (nat window_size) (drop (nat (int k * step)) series))
                = Inr (ds ! k)"
    by blast
  have "int (length series) < window_size \<longrightarrow> ds = []"
    using windowed_features_short [OF assms, of series lib] ds(1) by auto
  with ds show ?thesis by blast
qed

theorem windowed_features_every_window_witness:
  "\<forall>lib. (1::int) \<le> 2 \<and> (1::int) \<le> 1 \<and>
     (\<exists>d0 d1. windowed_features lib [Fin 1, Fin 2, Fin 3] 2 1 = Inr [d0, d1] \<and>
        extract_basic_stats lib [Fin 1, Fin 2] = Inr d0 \<and>
        extract_basic_stats lib [Fin 2, Fin 3] = Inr d1)"
proof
  fix lib
  from windowed_features_every_window [of 2 1 lib "[Fin 1, Fin 2, Fin 3]"]
  obtain ds where ds: "windowed_features lib [Fin 1, Fin 2, Fin 3] 2 1 = Inr ds" by auto
  moreover have "\<exists>d0 d1. windowed_features lib [Fin 1, Fin 2, Fin 3] 2 1 = Inr [d0, d1] \<and>
        extract_basic_stats lib [Fin 1, Fin 2] = Inr d0 \<and>
        extract_basic_stats lib [Fin 2, Fin 3] = Inr d1"
    by (simp add: windowed_features_def py_range0_def py_slice_def slice_bound_def
        extract_basic_stats_def np_max_def np_min_def Let_def upt_conv_Cons)
  ultimately show "(1::int) \<le> 2 \<and> (1::int) \<le> 1 \<and>
     (\<exists>d0 d1. windowed_features lib [Fin 1, Fin 2, Fin 3] 2 1 = Inr [d0, d1] \<and>
        extract_basic_stats lib [Fin 1, Fin 2] = Inr d0 \<and>
        extract_basic_stats lib [Fin 2, Fin 3] = Inr d1)" by simp
qed

section \<open>Properties of the feature vector\<close>

lemma dict_set_fresh: "k \<notin> fst ` set d \<Longrightarrow> dict_set k v d = d @ [(k, v)]"
  by (induction d) auto

lemma store_stats_fresh:
  assumes "distinct (map fst stats)"
    and "\<And>k. k \<in> fst ` set stats \<Longrightarrow> name @ ''_'' @ k \<notin> fst ` set features"
  shows "store_stats name stats features = features @ flat_stats name stats"
  using assms
proof (induction stats arbitrary: features)
  case Nil
  then show ?case by (simp add: flat_stats_def)
next
  case (Cons kv stats)
  obtain k v where kv: "kv = (k, v)" by (cases kv)
  have fresh: "name @ ''_'' @ k \<notin> fst ` set features" using Cons.prems(2) kv by simp
  have step: "dict_set (name @ ''_'' @ k) v features = features @ [(name @ ''_'' @ k, v)]"
    using fresh by (rule dict_set_fresh)
  have "store_stats name stats (features @ [(name @ ''_'' @ k, v)])
          = (features @ [(name @ ''_'' @ k, v)]) @ flat_stats name stats"
  proof (rule Cons.IH)
    show "distinct (map fst stats)" using Cons.prems(1) by simp
  next
    fix k' assume k': "k' \<in> fst ` set stats"
    then have "k' \<noteq> k" using Cons.prems(1) kv by auto
    moreover have "name @ ''_'' @ k' \<notin> fst ` set features" using Cons.prems(2) k' by simp
    ultimately show "name @ ''_'' @ k' \<notin> fst ` set (features @ [(name @ ''_'' @ k, v)])"
      by simp
  qed
  then show ?case using step kv by (simp add: flat_stats_def)
qed

lemma extract_basic_stats_keys:
  "extract_basic_stats lib arr = Inr stats \<Longrightarrow> map fst stats = stat_names"
  by (auto simp: extract_basic_stats_def stat_names_def Let_def split: sum.splits)

lemma stat_names_no_underscore: "k \<in> set stat_names \<Longrightarrow> CHR ''_'' \<notin> set k"
  by (auto simp: stat_names_def)

lemma stat_names_distinct: "distinct stat_names"
  by (simp add: stat_names_def)

lemma key_injective:
  assumes "a @ ''_'' @ k = b @ ''_'' @ k'" "CHR ''_'' \<notin> set k" "CHR ''_'' \<notin> set k'"
  shows "a = b"
  using assms
  by (auto simp: append_eq_append_conv2 append_eq_Cons_conv Cons_eq_append_conv)


lemma flat_stats_keys: "fst ` set (flat_stats name stats) = (\<lambda>k. name @ ''_'' @ k) ` fst ` set stats"
  by (force simp: flat_stats_def)

lemma feature_loop_concat:
  assumes "feature_loop lib signals features = Inr fv"
    and "distinct (map fst signals)"
    and "\<And>key name k. key \<in> fst ` set features \<Longrightarrow> name \<in> fst ` set signals \<Longrightarrow>
           k \<in> set stat_names \<Longrightarrow> key \<noteq> name @ ''_'' @ k"
  shows "\<exists>sts. length sts = length signals \<and>
           (\<forall>i < length signals. extract_basic_stats lib (snd (signals ! i)) = Inr (sts ! i)) \<and>
           fv = features @ concat (map2 flat_stats (map fst signals) sts)"
  using assms
proof (induction signals arbitrary: features)
  case Nil
  then show ?case by simp
next
  case (Cons na signals)
  obtain name arr where na: "na = (name, arr)" by (cases na)
  from Cons.prems(1) na obtain stats where
    stats: "extract_basic_stats lib arr = Inr stats"
    and rest: "feature_loop lib signals (store_stats name stats features) = Inr fv"
    by (auto split: sum.splits)
  have keys: "map fst stats = stat_names" using stats by (rule extract_basic_stats_keys)
  have kset: "fst ` set stats = set stat_names" using keys by (metis list.set_map)
  have "store_stats name stats features = features @ flat_stats name stats"
  proof (rule store_stats_fresh)
    show "distinct (map fst stats)" using keys stat_names_distinct by simp
  next
    fix k assume "k \<in> fst ` set stats"
    then have "k \<in> set stat_names" using kset by simp
    then show "name @ ''_'' @ k \<notin> fst ` set features"
      using Cons.prems(3) [of "name @ ''_'' @ k" name k] na by auto
  qed
  with rest have rest': "feature_loop lib signals (features @ flat_stats name stats) = Inr fv"
    by simp
  have "\<exists>sts. length sts = length signals \<and>
           (\<forall>i < length signals. extract_basic_stats lib (snd (signals ! i)) = Inr (sts ! i)) \<and>
           fv = (features @ flat_stats name stats) @ concat (map2 flat_stats (map fst signals) sts)"
  proof (rule Cons.IH [OF rest'])
    show "distinct (map fst signals)" using Cons.prems(2) by simp
  next
    fix key name' k
    assume key: "key \<in> fst ` set (features @ flat_stats name stats)"
      and name': "name' \<in> fst ` set signals" and k: "k \<in> set stat_names"
    have neq: "name' \<noteq> name" using Cons.prems(2) name' na by auto
    from key consider "key \<in> fst ` set features" | "key \<in> fst ` set (flat_stats name stats)"
      by auto
    then show "key \<noteq> name' @ ''_'' @ k"
    proof cases
      case 1
      then show ?thesis using Cons.prems(3) [of key name' k] name' k by simp
    next
      case 2
      then obtain k0 where k0: "k0 \<in> set stat_names" "key = name @ ''_'' @ k0"
        using kset by (auto simp: flat_stats_keys)
      show ?thesis
      proof
        assume "key = name' @ ''_'' @ k"
        then have "name @ ''_'' @ k0 = name' @ ''_'' @ k" using k0(2) by simp
        then have "name = name'"
          using key_injective stat_names_no_underscore k0(1) k by blast
        then show False using neq by simp
      qed
    qed
  qed
  then obtain sts where sts: "length sts = length signals"
    "\<forall>i < length signals. extract_basic_stats lib (snd (signals ! i)) = Inr (sts ! i)"
    "fv = (features @ flat_stats name stats) @ concat (map2 flat_stats (map fst signals) sts)"
    by blast
  have "length (stats # sts) = length (na # signals)" using sts(1) by simp
  moreover have "\<forall>i < length (na # signals).
      extract_basic_stats lib (snd ((na # signals) ! i)) = Inr ((stats # sts) ! i)"
    using stats sts(2) na by (auto simp: nth_Cons split: nat.splits)
  moreover have "fv = features @ concat (map2 flat_stats (map fst (na # signals)) (stats # sts))"
    using sts(3) na by simp
  ultimately show ?case by blast
qed

lemma feature_loop_ok:
  assumes "\<And>name arr. (name, arr) \<in> set signals \<Longrightarrow> arr \<noteq> []"
  shows "\<exists>fv. feature_loop lib signals features = Inr fv"
  using assms
proof (induction signals arbitrary: features)
  case Nil
  then show ?case by simp
next
  case (Cons na signals)
  obtain name arr where na: "na = (name, arr)" by (cases na)
  then have "arr \<noteq> []" using Cons.prems by auto
  then obtain stats where "extract_basic_stats lib arr = Inr stats"
    by (cases arr) (simp_all add: extract_basic_stats_def np_max_def np_min_def Let_def)
  moreover have "\<exists>fv. feature_loop lib signals (store_stats name stats features) = Inr fv"
    using Cons.prems by (intro Cons.IH) auto
  ultimately show ?case using na by simp
qed

lemma sanitize_json_finite: "(k, v) \<in> set (sanitize_json d) \<Longrightarrow> is_finite v"
  by (auto simp: sanitize_json_def is_finite_def split: if_splits)

lemma sanitize_json_keys: "map fst (sanitize_json d) = map fst d"
  by (simp add: sanitize_json_def case_prod_beta comp_def)

lemma sanitize_json_unchanged: "list_all (\<lambda>(k, v). is_finite v) d \<Longrightarrow> sanitize_json d = d"
  by (induction d) (auto simp: sanitize_json_def is_finite_def)


text \<open>
  Claim C1, as the code has it. The feature extractor does not sanitize: for channels
  with distinct names it returns, channel after channel, the seven statistics exactly as
  the numeric library computed them (and it returns whenever no channel is empty). The
  vector is finite only after \<^verbatim>\<open>sanitize_json\<close> of the inference client, which
  replaces each NaN and each infinity by 0.0 and changes nothing else.
\<close>

theorem feature_vector_finite_after_sanitize:
  assumes "distinct (map fst signals)"
  shows "(list_all (\<lambda>(name, arr). arr \<noteq> []) signals \<longrightarrow>
            (\<exists>fv. signals_to_feature_vector lib signals = Inr fv)) \<and>
         (\<forall>fv. signals_to_feature_vector lib signals = Inr fv \<longrightarrow>
            (\<exists>sts. length sts = length signals \<and>
               (\<forall>i < length signals.
                  extract_basic_stats lib (snd (signals ! i)) = Inr (sts ! i)) \<and>
               fv = concat (map2 flat_stats (map fst signals) sts)) \<and>
            (\<forall>(k, v) \<in> set (sanitize_json fv). is_finite v) \<and>
            sanitize_json fv = map (\<lambda>(k, v). (k, if is_finite v then v else Fin 0)) fv)"
proof (intro conjI allI impI)
  assume "list_all (\<lambda>(name, arr). arr \<noteq> []) signals"
  then have "\<And>name arr. (name, arr) \<in> set signals \<Longrightarrow> arr \<noteq> []"
    by (auto simp: list_all_iff)
  then show "\<exists>fv. signals_to_feature_vector lib signals = Inr fv"
    unfolding signals_to_feature_vector_def by (rule feature_loop_ok)
next
  fix fv assume "signals_to_feature_vector lib signals = Inr fv"
  then have fv: "feature_loop lib signals [] = Inr fv"
    by (simp add: signals_to_feature_vector_def)
  from feature_loop_concat [OF fv assms]
  show "\<exists>sts. length sts = length signals \<and>
               (\<forall>i < length signals.
                  extract_basic_stats lib (snd (signals ! i)) = Inr (sts ! i)) \<and>
               fv = concat (map2 flat_stats (map fst signals) sts)"
    by auto
next
  fix fv
  show "\<forall>(k, v) \<in> set (sanitize_json fv). is_finite v"
    using sanitize_json_finite by auto
next
  fix fv
  show "sanitize_json fv = map (\<lambda>(k, v). (k, if is_finite v then v else Fin 0)) fv"
    by (auto simp: sanitize_json_def is_finite_def)
qed

theorem feature_vector_finite_after_sanitize_witness:
  "\<forall>lib. distinct (map fst [(''a'', [PosInf])]) \<and>
     (\<exists>fv. signals_to_feature_vector lib [(''a'', [PosInf])] = Inr fv \<and>
        dict_get fv ''a_max'' = Some PosInf \<and>
        list_all (\<lambda>kv. is_finite (snd kv)) (sanitize_json fv) \<and>
        dict_get (sanitize_json fv) ''a_max'' = Some (Fin 0))"
proof
  fix lib
  have d: "distinct (map fst [(''a'', [PosInf])])" by simp
  from feature_vector_finite_after_sanitize [OF d, of lib]
  obtain fv where fv: "signals_to_feature_vector lib [(''a'', [PosInf])] = Inr fv"
    and fin: "\<forall>(k, v) \<in> set (sanitize_json fv). is_finite v"
    by auto
  have mx: "dict_get fv ''a_max'' = Some PosInf"
    using fv by (auto simp: signals_to_feature_vector_def extract_basic_stats_def np_max_def
        np_min_def Let_def dict_get_def)
  have "dict_get (sanitize_json fv) ''a_max'' = Some (Fin 0)"
    using fv by (auto simp: signals_to_feature_vector_def extract_basic_stats_def np_max_def
        np_min_def Let_def dict_get_def sanitize_json_def)
  moreover have "list_all (\<lambda>kv. is_finite (snd kv)) (sanitize_json fv)"
    using fin by (auto simp: list_all_iff)
  ultimately show "distinct (map fst [(''a'', [PosInf])]) \<and>
     (\<exists>fv. signals_to_feature_vector lib [(''a'', [PosInf])] = Inr fv \<and>
        dict_get fv ''a_max'' = Some PosInf \<and>
        list_all (\<lambda>kv. is_finite (snd kv)) (sanitize_json fv) \<and>
        dict_get (sanitize_json fv) ''a_max'' = Some (Fin 0))"
    using fv mx by simp
qed

text \<open>
  The extractor's own result is not finite: the maximum of a channel that holds an
  infinity is that infinity, whatever the library computes for the other statistics.
\<close>

theorem extractor_keeps_infinity_counterexample:
  "\<forall>lib. \<exists>fv. signals_to_feature_vector lib [(''a'', [PosInf])] = Inr fv \<and>
     dict_get fv ''a_max'' = Some PosInf \<and> \<not> is_finite PosInf"
  by (simp add: signals_to_feature_vector_def extract_basic_stats_def np_max_def np_min_def
      Let_def dict_get_def is_finite_def)


section \<open>Properties of the transient table parser\<close>

lemma read_data_filter:
  "read_data n ls =
     map (\<lambda>l. take n (tokens l)) (filter (\<lambda>l. n \<le> length (tokens l)) (takeWhile data_line ls))"
  by (induction ls) (auto simp: tokens_def data_line_def Let_def)

lemma read_data_row_length: "row \<in> set (read_data n ls) \<Longrightarrow> length row = n"
  by (auto simp: read_data_filter)

lemma dict_set_map_fst:
  "map fst (dict_set k v d) = (if k \<in> set (map fst d) then map fst d else map fst d @ [k])"
  by (induction d) force+

lemma dict_set_keys: "fst ` set (dict_set k v d) = insert k (fst ` set d)"
proof -
  have "set (map fst (dict_set k v d)) = insert k (set (map fst d))"
    by (auto simp: dict_set_map_fst)
  then show ?thesis by simp
qed

lemma dict_set_distinct: "distinct (map fst d) \<Longrightarrow> distinct (map fst (dict_set k v d))"
  by (simp add: dict_set_map_fst)

lemma dict_set_values: "snd ` set (dict_set k v d) \<subseteq> insert v (snd ` set d)"
  by (induction d) (force split: if_splits)+

lemma init_fold:
  assumes "distinct (map fst d)" "snd ` set d \<subseteq> {[]}"
  shows "distinct (map fst (fold (\<lambda>h d. dict_set h [] d) hs d)) \<and>
         fst ` set (fold (\<lambda>h d. dict_set h [] d) hs d) = set hs \<union> fst ` set d \<and>
         snd ` set (fold (\<lambda>h d. dict_set h [] d) hs d) \<subseteq> {[]}"
  using assms
proof (induction hs arbitrary: d)
  case Nil
  then show ?case by simp
next
  case (Cons h hs)
  have "distinct (map fst (dict_set h [] d))" using Cons.prems(1) by (rule dict_set_distinct)
  moreover have "snd ` set (dict_set h [] d) \<subseteq> {[]}"
    using dict_set_values [of h "[]" d] Cons.prems(2) by auto
  ultimately show ?case using Cons.IH [of "dict_set h [] d"] by (simp add: dict_set_keys)
qed

lemma init_columns_props:
  "distinct (map fst (init_columns hs)) \<and> fst ` set (init_columns hs) = set hs \<and>
   snd ` set (init_columns hs) \<subseteq> {[]}"
  using init_fold [of "[]" hs] by (simp add: init_columns_def)

lemma dict_set_extend:
  assumes "distinct (map fst d)" "map_of d h = Some col"
  shows "dict_set h (col @ [x]) d = map (\<lambda>(k, c). (k, if k = h then c @ [x] else c)) d"
  using assms
proof (induction d)
  case Nil
  then show ?case by simp
next
  case (Cons kc d)
  obtain k c where kc: "kc = (k, c)" by (cases kc)
  show ?case
  proof (cases "k = h")
    case True
    then have "col = c" using Cons.prems(2) kc by simp
    moreover have "map (\<lambda>(k, c). (k, if k = h then c @ [x] else c)) d = d"
      using Cons.prems(1) kc True by (intro map_idI) (auto simp: rev_image_eqI)
    ultimately show ?thesis using kc True by simp
  next
    case False
    then show ?thesis using Cons kc by simp
  qed
qed


lemma column_values_Cons:
  "column_values fv k ((h, v) # hvs) =
     (if h = k then [fv (replace_D_E v)] else []) @ column_values fv k hvs"
  by (simp add: column_values_def)

lemma append_values_char:
  assumes "distinct (map fst d)" and "fst ` set hvs \<subseteq> fst ` set d"
  shows "append_values fv hvs d =
           (if list_all (\<lambda>p. float_literal (replace_D_E (snd p))) hvs
            then Inr (map (\<lambda>(k, c). (k, c @ column_values fv k hvs)) d)
            else Inl ValueError)"
  using assms
proof (induction hvs arbitrary: d)
  case Nil
  then show ?case by (simp add: column_values_def)
next
  case (Cons hv hvs)
  obtain h v where hv: "hv = (h, v)" by (cases hv)
  from Cons.prems(2) hv have "h \<in> fst ` set d" by simp
  then obtain col where col: "map_of d h = Some col"
    by (metis domD dom_map_of_conv_image_fst)
  show ?case
  proof (cases "float_literal (replace_D_E v)")
    case False
    then show ?thesis using hv col by (simp add: dict_get_def py_float_def)
  next
    case True
    define x where "x = fv (replace_D_E v)"
    define d' where "d' = map (\<lambda>(k, c). (k, if k = h then c @ [x] else c)) d"
    have set: "dict_set h (col @ [x]) d = d'"
      unfolding d'_def using Cons.prems(1) col by (rule dict_set_extend)
    have keys: "map fst d' = map fst d" by (simp add: d'_def case_prod_beta comp_def)
    have "append_values fv hvs d' =
           (if list_all (\<lambda>p. float_literal (replace_D_E (snd p))) hvs
            then Inr (map (\<lambda>(k, c). (k, c @ column_values fv k hvs)) d')
            else Inl ValueError)"
    proof (rule Cons.IH)
      show "distinct (map fst d')" using keys Cons.prems(1) by simp
      have "fst ` set d' = fst ` set d" using keys by (metis list.set_map)
      then show "fst ` set hvs \<subseteq> fst ` set d'" using Cons.prems(2) by simp
    qed
    moreover have "map (\<lambda>(k, c). (k, c @ column_values fv k hvs)) d'
                     = map (\<lambda>(k, c). (k, c @ column_values fv k (hv # hvs))) d"
      by (auto simp: d'_def hv column_values_Cons x_def)
    ultimately show ?thesis
      using True hv col set by (simp add: dict_get_def py_float_def x_def)
  qed
qed

lemma fill_columns_char:
  assumes "distinct (map fst d)" and "set headers \<subseteq> fst ` set d"
  shows "fill_columns fv headers rows d =
           (if list_all (\<lambda>row. list_all (\<lambda>p. float_literal (replace_D_E (snd p))) (zip headers row)) rows
            then Inr (map (\<lambda>(k, c). (k, c @ concat (map (\<lambda>row. column_values fv k (zip headers row)) rows))) d)
            else Inl ValueError)"
  using assms
proof (induction rows arbitrary: d)
  case Nil
  then show ?case by simp
next
  case (Cons row rows)
  have sub: "fst ` set (zip headers row) \<subseteq> fst ` set d"
  proof
    fix k assume "k \<in> fst ` set (zip headers row)"
    then obtain v where "(k, v) \<in> set (zip headers row)" by auto
    then have "k \<in> set headers" by (rule set_zip_leftD)
    then show "k \<in> fst ` set d" using Cons.prems(2) by blast
  qed
  note av = append_values_char [OF Cons.prems(1) sub, of fv]
  show ?case
  proof (cases "list_all (\<lambda>p. float_literal (replace_D_E (snd p))) (zip headers row)")
    case False
    then show ?thesis using av by simp
  next
    case True
    define d' where "d' = map (\<lambda>(k, c). (k, c @ column_values fv k (zip headers row))) d"
    have keys: "map fst d' = map fst d" by (simp add: d'_def case_prod_beta comp_def)
    have "fill_columns fv headers rows d' =
           (if list_all (\<lambda>row. list_all (\<lambda>p. float_literal (replace_D_E (snd p))) (zip headers row)) rows
            then Inr (map (\<lambda>(k, c). (k, c @ concat (map (\<lambda>row. column_values fv k (zip headers row)) rows))) d')
            else Inl ValueError)"
    proof (rule Cons.IH)
      show "distinct (map fst d')" using keys Cons.prems(1) by simp
      have "fst ` set d' = fst ` set d" using keys by (metis list.set_map)
      then show "set headers \<subseteq> fst ` set d'" using Cons.prems(2) by simp
    qed
    moreover have "map (\<lambda>(k, c). (k, c @ concat (map (\<lambda>row. column_values fv k (zip headers row)) rows))) d'
        = map (\<lambda>(k, c). (k, c @ concat (map (\<lambda>row. column_values fv k (zip headers row)) (row # rows)))) d"
      by (auto simp: d'_def)
    ultimately show ?thesis using True av by (simp add: d'_def)
  qed
qed

lemma zip_all_snd:
  "length hs = length row \<Longrightarrow> list_all (\<lambda>p. P (snd p)) (zip hs row) = list_all P row"
  by (induction hs row rule: list_induct2) auto

lemma parse_lines_char:
  assumes "find_header lines = Some i"
  shows "parse_lines fv lines =
           (if list_all row_ok (table_rows lines i)
            then Inr (table_of fv (table_headers lines i) (table_rows lines i))
            else Inl ValueError)"
proof -
  define headers where "headers = table_headers lines i"
  define rows where "rows = table_rows lines i"
  have len: "length row = length headers" if "row \<in> set rows" for row
    using that unfolding rows_def table_rows_def headers_def by (rule read_data_row_length)
  have "list_all (\<lambda>p. float_literal (replace_D_E (snd p))) (zip headers row) = row_ok row"
    if "row \<in> set rows" for row
    unfolding row_ok_def using len [OF that] by (intro zip_all_snd) simp
  then have ok: "list_all (\<lambda>row. list_all (\<lambda>p. float_literal (replace_D_E (snd p))) (zip headers row)) rows
              = list_all row_ok rows"
    by (simp add: list_all_iff)
  have init: "distinct (map fst (init_columns headers))" "set headers \<subseteq> fst ` set (init_columns headers)"
    "snd ` set (init_columns headers) \<subseteq> {[]}"
    using init_columns_props [of headers] by simp_all
  have nil: "c = []" if "(k, c) \<in> set (init_columns headers)" for k c
    using init(3) that by force
  have empty: "map (\<lambda>(k, c). (k, c @ concat (map (\<lambda>row. column_values fv k (zip headers row)) rows))) (init_columns headers)
        = table_of fv headers rows"
    unfolding table_of_def map_eq_conv using nil by auto
  have "parse_lines fv lines = fill_columns fv headers rows (init_columns headers)"
    using assms by (simp add: parse_lines_def headers_def rows_def)
  also have "\<dots> = (if list_all row_ok rows then Inr (table_of fv headers rows) else Inl ValueError)"
    unfolding fill_columns_char [OF init(1,2), of fv rows] ok empty ..
  finally show ?thesis by (simp add: headers_def rows_def)
qed


lemma parse_printed_table_char:
  assumes "find_header (splitlines txt) = Some i"
  shows "parse_printed_table fv txt =
           (if list_all row_ok (table_rows (splitlines txt) i)
            then Inr (table_of fv (table_headers (splitlines txt) i) (table_rows (splitlines txt) i))
            else Inl ValueError)"
  unfolding parse_printed_table_def using assms by (rule parse_lines_char)

lemma column_values_length:
  "length hs = length row \<Longrightarrow> length (column_values fv h (zip hs row)) = count_list hs h"
  by (induction hs row rule: list_induct2) (auto simp: column_values_def)

lemma concat_const_length:
  assumes "\<And>row. row \<in> set rows \<Longrightarrow> length (f row) = m"
  shows "length (concat (map f rows)) = m * length rows"
  using assms by (induction rows) (auto simp: algebra_simps)

lemma count_list_distinct: "distinct hs \<Longrightarrow> h \<in> set hs \<Longrightarrow> count_list hs h = 1"
  by (induction hs) auto

lemma table_of_keys:
  "distinct (map fst (table_of fv headers rows)) \<and>
   fst ` set (table_of fv headers rows) = set headers"
proof -
  have "map fst (table_of fv headers rows) = map fst (init_columns headers)"
    by (simp add: table_of_def case_prod_beta comp_def)
  then show ?thesis using init_columns_props [of headers] by (metis list.set_map)
qed

lemma table_of_column:
  assumes "(h, col) \<in> set (table_of fv headers rows)"
  shows "col = concat (map (\<lambda>row. column_values fv h (zip headers row)) rows)"
  using assms by (auto simp: table_of_def)

lemma table_of_get:
  assumes "h \<in> set headers"
  shows "dict_get (table_of fv headers rows) h =
           Some (concat (map (\<lambda>row. column_values fv h (zip headers row)) rows))"
proof -
  from assms table_of_keys [of fv headers rows]
  obtain col where col: "(h, col) \<in> set (table_of fv headers rows)" by force
  then have "map_of (table_of fv headers rows) h = Some col"
    using table_of_keys [of fv headers rows] by simp
  with table_of_column [OF col] show ?thesis by (simp add: dict_get_def)
qed

lemma table_rows_length:
  "row \<in> set (table_rows lines i) \<Longrightarrow> length row = length (table_headers lines i)"
  unfolding table_rows_def by (rule read_data_row_length)

text \<open>
  Claim C4, as the code has it. Once a header line is found, the rows kept are the lines
  up to the first blank line or line starting with \<^verbatim>\<open>Index\<close>, without those that split
  into fewer parts than there are headers, each cut to the number of headers: a short
  line is dropped silently. A kept row is not dropped when one of its tokens is not a
  float after replacing \<^verbatim>\<open>D\<close> by \<^verbatim>\<open>E\<close>: the conversion raises ValueError and the
  whole parse ends with it, without a table. When every token of every kept row
  converts, the table is returned.
\<close>

theorem short_rows_dropped_bad_token_aborts:
  assumes "find_header (splitlines txt) = Some i"
  shows "table_rows (splitlines txt) i =
           map (\<lambda>l. take (length (table_headers (splitlines txt) i)) (tokens l))
             (filter (\<lambda>l. length (table_headers (splitlines txt) i) \<le> length (tokens l))
                (takeWhile data_line (drop (Suc i) (splitlines txt)))) \<and>
         parse_printed_table fv txt =
           (if list_all row_ok (table_rows (splitlines txt) i)
            then Inr (table_of fv (table_headers (splitlines txt) i) (table_rows (splitlines txt) i))
            else Inl ValueError)"
  using parse_printed_table_char [OF assms, of fv]
  by (simp add: table_rows_def read_data_filter)

theorem short_rows_dropped_bad_token_aborts_witness:
  "\<forall>fv. find_header (splitlines ''Index time v\<newline>0 0.0 1.5\<newline>1 0.1\<newline>2 0.2 2.5D+00\<newline>\<newline>9 9 9'') = Some 0 \<and>
     table_rows (splitlines ''Index time v\<newline>0 0.0 1.5\<newline>1 0.1\<newline>2 0.2 2.5D+00\<newline>\<newline>9 9 9'') 0 =
       [[''0'', ''0.0'', ''1.5''], [''2'', ''0.2'', ''2.5D+00'']] \<and>
     parse_printed_table fv ''Index time v\<newline>0 0.0 1.5\<newline>1 0.1\<newline>2 0.2 2.5D+00\<newline>\<newline>9 9 9'' =
       Inr [(''Index'', [fv ''0'', fv ''2'']), (''time'', [fv ''0.0'', fv ''0.2'']),
            (''v'', [fv ''1.5'', fv ''2.5E+00''])]"
proof
  fix fv
  let ?T = "''Index time v\<newline>0 0.0 1.5\<newline>1 0.1\<newline>2 0.2 2.5D+00\<newline>\<newline>9 9 9''"
  have h: "find_header (splitlines ?T) = Some 0" by code_simp
  have r: "table_rows (splitlines ?T) 0 = [[''0'', ''0.0'', ''1.5''], [''2'', ''0.2'', ''2.5D+00'']]"
    by code_simp
  have ok: "list_all row_ok [[''0'', ''0.0'', ''1.5''], [''2'', ''0.2'', ''2.5D+00'']]"
    by code_simp
  have hd: "table_headers (splitlines ?T) 0 = [''Index'', ''time'', ''v'']" by code_simp
  have t: "table_of fv [''Index'', ''time'', ''v''] [[''0'', ''0.0'', ''1.5''], [''2'', ''0.2'', ''2.5D+00'']]
         = [(''Index'', [fv ''0'', fv ''2'']), (''time'', [fv ''0.0'', fv ''0.2'']),
            (''v'', [fv ''1.5'', fv ''2.5E+00''])]"
    by (simp add: table_of_def init_columns_def column_values_def replace_D_E_def)
  from short_rows_dropped_bad_token_aborts [OF h, of fv]
  have "parse_printed_table fv ?T =
          (if list_all row_ok (table_rows (splitlines ?T) 0)
           then Inr (table_of fv (table_headers (splitlines ?T) 0) (table_rows (splitlines ?T) 0))
           else Inl ValueError)"
    by (rule conjunct2)
  then have "parse_printed_table fv ?T =
       Inr [(''Index'', [fv ''0'', fv ''2'']), (''time'', [fv ''0.0'', fv ''0.2'']),
            (''v'', [fv ''1.5'', fv ''2.5E+00''])]"
    by (simp only: r hd ok t if_True)
  with h r show "find_header (splitlines ?T) = Some 0 \<and>
     table_rows (splitlines ?T) 0 = [[''0'', ''0.0'', ''1.5''], [''2'', ''0.2'', ''2.5D+00'']] \<and>
     parse_printed_table fv ?T =
       Inr [(''Index'', [fv ''0'', fv ''2'']), (''time'', [fv ''0.0'', fv ''0.2'']),
            (''v'', [fv ''1.5'', fv ''2.5E+00''])]"
    by simp
qed

text \<open>
  A row with a token that is not a float aborts the parse; it is not dropped.
\<close>

theorem bad_token_aborts_counterexample:
  "\<forall>fv. find_header (splitlines ''Index time v\<newline>0 0.0 1.0\<newline>1 abc 2.0\<newline>2 0.2 3.0'') = Some 0 \<and>
     parse_printed_table fv ''Index time v\<newline>0 0.0 1.0\<newline>1 abc 2.0\<newline>2 0.2 3.0'' = Inl ValueError"
proof
  fix fv
  show "find_header (splitlines ''Index time v\<newline>0 0.0 1.0\<newline>1 abc 2.0\<newline>2 0.2 3.0'') = Some 0 \<and>
     parse_printed_table fv ''Index time v\<newline>0 0.0 1.0\<newline>1 abc 2.0\<newline>2 0.2 3.0'' = Inl ValueError"
    by code_simp
qed

text \<open>
  The columns of the table are keyed by header name. Whenever the parser returns, the
  table has one column for each distinct header name, and the column of a name holds, row
  after row, the values at all the positions where the header has that name: a name that
  occurs \<open>m\<close> times has \<open>m\<close> values for each kept row.
\<close>

lemma columns_keyed_by_name:
  assumes "find_header (splitlines txt) = Some i"
    and "parse_printed_table fv txt = Inr tbl"
  shows "distinct (dict_keys tbl) \<and>
         set (dict_keys tbl) = set (table_headers (splitlines txt) i) \<and>
         (\<forall>h \<in> set (table_headers (splitlines txt) i).
            \<exists>col. dict_get tbl h = Some col \<and>
              col = concat (map (\<lambda>row. column_values fv h (zip (table_headers (splitlines txt) i) row))
                              (table_rows (splitlines txt) i)) \<and>
              length col = count_list (table_headers (splitlines txt) i) h *
                             length (table_rows (splitlines txt) i))"
proof -
  define headers where "headers = table_headers (splitlines txt) i"
  define rows where "rows = table_rows (splitlines txt) i"
  from parse_printed_table_char [OF assms(1), of fv] assms(2)
  have tbl: "tbl = table_of fv headers rows"
    by (simp add: headers_def rows_def split: if_splits)
  have keys: "distinct (dict_keys tbl)" "set (dict_keys tbl) = set headers"
    using table_of_keys [of fv headers rows] tbl by (simp_all add: dict_keys_def)
  have "\<exists>col. dict_get tbl h = Some col \<and>
              col = concat (map (\<lambda>row. column_values fv h (zip headers row)) rows) \<and>
              length col = count_list headers h * length rows"
    if h: "h \<in> set headers" for h
  proof -
    have "length (column_values fv h (zip headers row)) = count_list headers h"
      if "row \<in> set rows" for row
    proof -
      have "length headers = length row"
        using that table_rows_length unfolding rows_def headers_def by force
      then show ?thesis by (rule column_values_length)
    qed
    then have "length (concat (map (\<lambda>row. column_values fv h (zip headers row)) rows))
                 = count_list headers h * length rows"
      by (rule concat_const_length)
    then show ?thesis using table_of_get [OF h, of fv rows] tbl by simp
  qed
  then show ?thesis using keys by (simp add: headers_def rows_def)
qed

text \<open>
  Claim C5 asks that columns with the same header name be kept apart by position. The
  code does not do so: with the header \<^verbatim>\<open>Index time v v\<close> and the row
  \<^verbatim>\<open>0 0.0 1.0 2.0\<close> the table has three columns for four header tokens, and the one
  column \<^verbatim>\<open>v\<close> holds the values of both positions.
\<close>

theorem duplicate_headers_merged:
  "\<forall>fv. table_headers (splitlines ''Index time v v\<newline>0 0.0 1.0 2.0'') 0 = [''Index'', ''time'', ''v'', ''v''] \<and>
     parse_printed_table fv ''Index time v v\<newline>0 0.0 1.0 2.0'' =
       Inr [(''Index'', [fv ''0'']), (''time'', [fv ''0.0'']), (''v'', [fv ''1.0'', fv ''2.0''])]"
proof
  fix fv
  show "table_headers (splitlines ''Index time v v\<newline>0 0.0 1.0 2.0'') 0 = [''Index'', ''time'', ''v'', ''v''] \<and>
     parse_printed_table fv ''Index time v v\<newline>0 0.0 1.0 2.0'' =
       Inr [(''Index'', [fv ''0'']), (''time'', [fv ''0.0'']), (''v'', [fv ''1.0'', fv ''2.0''])]"
    by code_simp
qed

text \<open>
  Claim C10. When the header's column names are pairwise distinct and the parser returns
  a table, its keys are the header names and every column has as many values as there
  are kept rows.
\<close>

theorem parser_columns_equal_length:
  assumes "find_header (splitlines txt) = Some i"
    and "distinct (table_headers (splitlines txt) i)"
    and "parse_printed_table fv txt = Inr tbl"
  shows "set (dict_keys tbl) = set (table_headers (splitlines txt) i) \<and>
         (\<forall>(h, col) \<in> set tbl. length col = length (table_rows (splitlines txt) i))"
proof -
  define headers where "headers = table_headers (splitlines txt) i"
  define rows where "rows = table_rows (splitlines txt) i"
  from parse_printed_table_char [OF assms(1), of fv] assms(3)
  have tbl: "tbl = table_of fv headers rows"
    by (simp add: headers_def rows_def split: if_splits)
  have keys: "fst ` set tbl = set headers" using table_of_keys [of fv headers rows] tbl by simp
  have "length col = length rows" if "(h, col) \<in> set tbl" for h col
  proof -
    from that keys have h: "h \<in> set headers" by force
    have col: "col = concat (map (\<lambda>row. column_values fv h (zip headers row)) rows)"
      using that tbl table_of_column by simp
    have "length (column_values fv h (zip headers row)) = 1" if "row \<in> set rows" for row
    proof -
      have "length headers = length row"
        using that table_rows_length unfolding rows_def headers_def by force
      then have "length (column_values fv h (zip headers row)) = count_list headers h"
        by (rule column_values_length)
      also have "\<dots> = 1" using assms(2) h unfolding headers_def by (intro count_list_distinct)
      finally show ?thesis .
    qed
    then have "length (concat (map (\<lambda>row. column_values fv h (zip headers row)) rows)) = 1 * length rows"
      by (rule concat_const_length)
    with col show ?thesis by simp
  qed
  then show ?thesis using keys by (auto simp: dict_keys_def headers_def rows_def)
qed

theorem parser_columns_equal_length_witness:
  "\<forall>fv. find_header (splitlines ''Index time v\<newline>0 0.0 1.5\<newline>1 0.1\<newline>2 0.2 2.5'') = Some 0 \<and>
     distinct (table_headers (splitlines ''Index time v\<newline>0 0.0 1.5\<newline>1 0.1\<newline>2 0.2 2.5'') 0) \<and>
     (\<exists>tbl. parse_printed_table fv ''Index time v\<newline>0 0.0 1.5\<newline>1 0.1\<newline>2 0.2 2.5'' = Inr tbl \<and>
        dict_keys tbl = [''Index'', ''time'', ''v''] \<and>
        list_all (\<lambda>kc. length (snd kc) = 2) tbl)"
proof
  fix fv
  let ?T = "''Index time v\<newline>0 0.0 1.5\<newline>1 0.1\<newline>2 0.2 2.5''"
  have h: "find_header (splitlines ?T) = Some 0" by code_simp
  have d: "distinct (table_headers (splitlines ?T) 0)" by code_simp
  have p: "parse_printed_table fv ?T =
       Inr [(''Index'', [fv ''0'', fv ''2'']), (''time'', [fv ''0.0'', fv ''0.2'']),
            (''v'', [fv ''1.5'', fv ''2.5''])]"
    by code_simp
  have r: "length (table_rows (splitlines ?T) 0) = 2" by code_simp
  from parser_columns_equal_length [OF h d p] r
  have "list_all (\<lambda>kc. length (snd kc) = 2) [(''Index'', [fv ''0'', fv ''2'']), (''time'', [fv ''0.0'', fv ''0.2'']),
            (''v'', [fv ''1.5'', fv ''2.5''])]"
    by simp
  with h d p show "find_header (splitlines ?T) = Some 0 \<and>
     distinct (table_headers (splitlines ?T) 0) \<and>
     (\<exists>tbl. parse_printed_table fv ?T = Inr tbl \<and>
        dict_keys tbl = [''Index'', ''time'', ''v''] \<and>
        list_all (\<lambda>kc. length (snd kc) = 2) tbl)"
    by (simp add: dict_keys_def)
qed

section \<open>Properties of the sensor emulation layer\<close>

lemma dict_get_dict_set:
  "dict_get (dict_set k v d) k' = (if k' = k then Some v else dict_get d k')"
  by (induction d) (auto simp: dict_get_def)

lemma dict_get_keys: "(k \<in> set (dict_keys d)) = (dict_get d k \<noteq> None)"
  by (simp add: dict_keys_def dict_get_def map_of_eq_None_iff)

lemma emit_channel_step:
  assumes ok: "\<And>g col. dict_get simdata col \<noteq> None \<Longrightarrow> \<exists>ch g'. emulate g simdata col = Inr (ch, g')"
  shows "\<exists>out' g'. emit_channel mapping simdata key gpio emulate (out, g) = Inr (out', g') \<and>
           (\<forall>k. k \<noteq> gpio \<longrightarrow> dict_get out' k = dict_get out k) \<and>
           set (dict_keys out') \<subseteq> insert gpio (set (dict_keys out)) \<and>
           (if source_present mapping simdata key
            then \<exists>col ch. dict_get mapping key = Some col \<and> dict_get simdata col \<noteq> None \<and>
                   emulate g simdata col = Inr (ch, g') \<and> dict_get out' gpio = Some ch
            else out' = out \<and> g' = g)"
proof (cases "source_present mapping simdata key")
  case False
  then show ?thesis by (auto simp: emit_channel_def)
next
  case True
  then obtain col where col: "dict_get mapping key = Some col" "dict_get simdata col \<noteq> None"
    by (auto simp: source_present_def dict_get_keys split: option.splits)
  from ok [OF col(2), of g] obtain ch g' where em: "emulate g simdata col = Inr (ch, g')" by blast
  have "emit_channel mapping simdata key gpio emulate (out, g) = Inr (dict_set gpio ch out, g')"
    using True col em by (simp add: emit_channel_def and_then_def)
  moreover have "\<forall>k. k \<noteq> gpio \<longrightarrow> dict_get (dict_set gpio ch out) k = dict_get out k"
    by (simp add: dict_get_dict_set)
  moreover have "set (dict_keys (dict_set gpio ch out)) \<subseteq> insert gpio (set (dict_keys out))"
    using dict_set_keys [of gpio ch out] by (simp add: dict_keys_def)
  moreover have "dict_get (dict_set gpio ch out) gpio = Some ch" by (simp add: dict_get_dict_set)
  ultimately show ?thesis using True col em by auto
qed

lemma emulate_zmpt_ok:
  "dict_get simdata col \<noteq> None \<Longrightarrow> \<exists>ch g'. emulate_zmpt lib randn g simdata col = Inr (ch, g')"
  by (auto simp: emulate_zmpt_def split: prod.splits)

lemma emulate_acs_ok:
  "dict_get simdata col \<noteq> None \<Longrightarrow> \<exists>ch g'. emulate_acs lib randn g simdata col = Inr (ch, g')"
  by (auto simp: emulate_acs_def split: prod.splits)

lemma emulate_ntc_ok:
  "dict_get simdata col \<noteq> None \<Longrightarrow> \<exists>ch. emulate_ntc lib simdata col = Inr ch"
  by (auto simp: emulate_ntc_def and_then_def)

lemma emulate_piezo_ok:
  "dict_get simdata col \<noteq> None \<Longrightarrow> \<exists>ch g'. emulate_piezo lib randn g simdata col = Inr (ch, g')"
  by (auto simp: emulate_piezo_def and_then_def)

lemma emulate_relay_present:
  "dict_get simdata col = Some arr \<Longrightarrow> emulate_relay simdata col = Inr arr"
  by (simp add: emulate_relay_def)


lemma run_emulator_frame:
  fixes g :: 'r
  shows "\<exists>out g'.
     run_emulator lib randn g simdata mapping_arg = Inr (out, g') \<and>
     dict_get out ''time'' = Some (case dict_get simdata ''time'' of None \<Rightarrow> [] | Some t \<Rightarrow> t) \<and>
     set (dict_keys out) \<subseteq> {''time'', ''GPIO34'', ''GPIO35'', ''GPIO32'', ''GPIO33'', ''GPIO26''} \<and>
     (if source_present (resolve_mapping mapping_arg) simdata ''voltage_node_key''
      then \<exists>col ch g0 g1. dict_get (resolve_mapping mapping_arg) ''voltage_node_key'' = Some col \<and>
             emulate_zmpt lib randn g0 simdata col = Inr (ch, g1) \<and> dict_get out ''GPIO34'' = Some ch
      else ''GPIO34'' \<notin> set (dict_keys out)) \<and>
     (if source_present (resolve_mapping mapping_arg) simdata ''current_key''
      then \<exists>col ch g0 g1. dict_get (resolve_mapping mapping_arg) ''current_key'' = Some col \<and>
             emulate_acs lib randn g0 simdata col = Inr (ch, g1) \<and> dict_get out ''GPIO35'' = Some ch
      else ''GPIO35'' \<notin> set (dict_keys out)) \<and>
     (if source_present (resolve_mapping mapping_arg) simdata ''temp_node_key''
      then \<exists>col ch. dict_get (resolve_mapping mapping_arg) ''temp_node_key'' = Some col \<and>
             emulate_ntc lib simdata col = Inr ch \<and> dict_get out ''GPIO32'' = Some ch
      else ''GPIO32'' \<notin> set (dict_keys out)) \<and>
     (if source_present (resolve_mapping mapping_arg) simdata ''piezo_key''
      then \<exists>col ch g0 g1. dict_get (resolve_mapping mapping_arg) ''piezo_key'' = Some col \<and>
             emulate_piezo lib randn g0 simdata col = Inr (ch, g1) \<and> dict_get out ''GPIO33'' = Some ch
      else ''GPIO33'' \<notin> set (dict_keys out)) \<and>
     (if source_present (resolve_mapping mapping_arg) simdata ''relay_key''
      then \<exists>col ch. dict_get (resolve_mapping mapping_arg) ''relay_key'' = Some col \<and>
             emulate_relay simdata col = Inr ch \<and> dict_get out ''GPIO26'' = Some ch
      else ''GPIO26'' \<notin> set (dict_keys out)) \<and>
     dict_get out ''GPIO26'' =
       (case dict_get (resolve_mapping mapping_arg) ''relay_key'' of
          None \<Rightarrow> None
        | Some col \<Rightarrow> dict_get simdata col)"
proof -
  define m where "m = resolve_mapping mapping_arg"
  define time_axis where
    "time_axis = (\<lambda>simdata. case dict_get simdata ''time'' of None \<Rightarrow> [] | Some (t::pyfloat list) \<Rightarrow> t)"
  define out0 where "out0 = [(''time'', time_axis simdata)]"
  define ntc where "ntc = (\<lambda>(g::'r) sd k. and_then (emulate_ntc lib sd k) (\<lambda>ch. Inr (ch, g)))"
  define relay where "relay = (\<lambda>(g::'r) sd k. and_then (emulate_relay sd k) (\<lambda>ch. Inr (ch, g)))"
  have get0: "dict_get out0 k = (if k = ''time'' then Some (time_axis simdata) else None)" for k
    by (simp add: out0_def dict_get_def)
  have keys0: "set (dict_keys out0) = {''time''}" by (simp add: out0_def dict_keys_def)
  have ntc_ok: "\<exists>ch g'. ntc g0 simdata col = Inr (ch, g')" if "dict_get simdata col \<noteq> None" for g0 col
    using emulate_ntc_ok [OF that, of lib] by (auto simp: ntc_def and_then_def)
  have relay_ok: "\<exists>ch g'. relay g0 simdata col = Inr (ch, g')" if "dict_get simdata col \<noteq> None" for g0 col
    using that by (auto simp: relay_def and_then_def emulate_relay_def)
  from emit_channel_step [of simdata "emulate_zmpt lib randn", OF emulate_zmpt_ok, of m "''voltage_node_key''" "''GPIO34''" out0 g]
  obtain out1 g1 where s1:
    "emit_channel m simdata ''voltage_node_key'' ''GPIO34'' (emulate_zmpt lib randn) (out0, g) = Inr (out1, g1)"
    "\<forall>k. k \<noteq> ''GPIO34'' \<longrightarrow> dict_get out1 k = dict_get out0 k"
    "set (dict_keys out1) \<subseteq> insert ''GPIO34'' (set (dict_keys out0))"
    "if source_present m simdata ''voltage_node_key''
     then \<exists>col ch. dict_get m ''voltage_node_key'' = Some col \<and> dict_get simdata col \<noteq> None \<and>
            emulate_zmpt lib randn g simdata col = Inr (ch, g1) \<and> dict_get out1 ''GPIO34'' = Some ch
     else out1 = out0 \<and> g1 = g"
    by blast
  from emit_channel_step [of simdata "emulate_acs lib randn", OF emulate_acs_ok, of m "''current_key''" "''GPIO35''" out1 g1]
  obtain out2 g2 where s2:
    "emit_channel m simdata ''current_key'' ''GPIO35'' (emulate_acs lib randn) (out1, g1) = Inr (out2, g2)"
    "\<forall>k. k \<noteq> ''GPIO35'' \<longrightarrow> dict_get out2 k = dict_get out1 k"
    "set (dict_keys out2) \<subseteq> insert ''GPIO35'' (set (dict_keys out1))"
    "if source_present m simdata ''current_key''
     then \<exists>col ch. dict_get m ''current_key'' = Some col \<and> dict_get simdata col \<noteq> None \<and>
            emulate_acs lib randn g1 simdata col = Inr (ch, g2) \<and> dict_get out2 ''GPIO35'' = Some ch
     else out2 = out1 \<and> g2 = g1"
    by blast
  from emit_channel_step [of simdata ntc, OF ntc_ok, of m "''temp_node_key''" "''GPIO32''" out2 g2]
  obtain out3 g3 where s3:
    "emit_channel m simdata ''temp_node_key'' ''GPIO32'' ntc (out2, g2) = Inr (out3, g3)"
    "\<forall>k. k \<noteq> ''GPIO32'' \<longrightarrow> dict_get out3 k = dict_get out2 k"
    "set (dict_keys out3) \<subseteq> insert ''GPIO32'' (set (dict_keys out2))"
    "if source_present m simdata ''temp_node_key''
     then \<exists>col ch. dict_get m ''temp_node_key'' = Some col \<and> dict_get simdata col \<noteq> None \<and>
            ntc g2 simdata col = Inr (ch, g3) \<and> dict_get out3 ''GPIO32'' = Some ch
     else out3 = out2 \<and> g3 = g2"
    by blast
  from emit_channel_step [of simdata "emulate_piezo lib randn", OF emulate_piezo_ok, of m "''piezo_key''" "''GPIO33''" out3 g3]
  obtain out4 g4 where s4:
    "emit_channel m simdata ''piezo_key'' ''GPIO33'' (emulate_piezo lib randn) (out3, g3) = Inr (out4, g4)"
    "\<forall>k. k \<noteq> ''GPIO33'' \<longrightarrow> dict_get out4 k = dict_get out3 k"
    "set (dict_keys out4) \<subseteq> insert ''GPIO33'' (set (dict_keys out3))"
    "if source_present m simdata ''piezo_key''
     then \<exists>col ch. dict_get m ''piezo_key'' = Some col \<and> dict_get simdata col \<noteq> None \<and>
            emulate_piezo lib randn g3 simdata col = Inr (ch, g4) \<and> dict_get out4 ''GPIO33'' = Some ch
     else out4 = out3 \<and> g4 = g3"
    by blast
  from emit_channel_step [of simdata relay, OF relay_ok, of m "''relay_key''" "''GPIO26''" out4 g4]
  obtain out5 g5 where s5:
    "emit_channel m simdata ''relay_key'' ''GPIO26'' relay (out4, g4) = Inr (out5, g5)"
    "\<forall>k. k \<noteq> ''GPIO26'' \<longrightarrow> dict_get out5 k = dict_get out4 k"
    "set (dict_keys out5) \<subseteq> insert ''GPIO26'' (set (dict_keys out4))"
    "if source_present m simdata ''relay_key''
     then \<exists>col ch. dict_get m ''relay_key'' = Some col \<and> dict_get simdata col \<noteq> None \<and>
            relay g4 simdata col = Inr (ch, g5) \<and> dict_get out5 ''GPIO26'' = Some ch
     else out5 = out4 \<and> g5 = g4"
    by blast
  have ntc_state: "g' = g0 \<and> emulate_ntc lib sd k = Inr ch" if "ntc g0 sd k = Inr (ch, g')"
    for g0 g' sd k ch
    using that by (cases "emulate_ntc lib sd k") (auto simp: ntc_def and_then_def)
  have relay_state: "g' = g0 \<and> emulate_relay sd k = Inr ch" if "relay g0 sd k = Inr (ch, g')"
    for g0 g' sd k ch
    using that by (cases "emulate_relay sd k") (auto simp: relay_def and_then_def)
  have g3: "g3 = g2" using s3(4) ntc_state by (auto split: if_splits)
  have g5: "g5 = g4" using s5(4) relay_state by (auto split: if_splits)
  have run: "run_emulator lib randn g simdata mapping_arg = Inr (out5, g4)"
    using s1(1) s2(1) s3(1) s4(1) s5(1) g5
    by (simp add: run_emulator_def Let_def and_then_def m_def out0_def ntc_def relay_def time_axis_def)
  have time: "dict_get out5 ''time'' = Some (time_axis simdata)"
    using s1(2) s2(2) s3(2) s4(2) s5(2) get0 by simp
  have keys: "set (dict_keys out5) \<subseteq> {''time'', ''GPIO34'', ''GPIO35'', ''GPIO32'', ''GPIO33'', ''GPIO26''}"
    using s1(3) s2(3) s3(3) s4(3) s5(3) keys0 by blast
  have c34: "dict_get out5 ''GPIO34'' = dict_get out1 ''GPIO34''"
    using s2(2) s3(2) s4(2) s5(2) by simp
  have c35: "dict_get out5 ''GPIO35'' = dict_get out2 ''GPIO35''"
    using s3(2) s4(2) s5(2) by simp
  have c32: "dict_get out5 ''GPIO32'' = dict_get out3 ''GPIO32''"
    using s4(2) s5(2) by simp
  have c33: "dict_get out5 ''GPIO33'' = dict_get out4 ''GPIO33''"
    using s5(2) by simp
  have n34: "dict_get out0 ''GPIO34'' = None" by (simp add: get0)
  have n35: "dict_get out1 ''GPIO35'' = None" using s1(2) get0 by simp
  have n32: "dict_get out2 ''GPIO32'' = None" using s1(2) s2(2) get0 by simp
  have n33: "dict_get out3 ''GPIO33'' = None" using s1(2) s2(2) s3(2) get0 by simp
  have n26: "dict_get out4 ''GPIO26'' = None" using s1(2) s2(2) s3(2) s4(2) get0 by simp
  have p1: "if source_present m simdata ''voltage_node_key''
      then \<exists>col ch. dict_get m ''voltage_node_key'' = Some col \<and>
             emulate_zmpt lib randn g simdata col = Inr (ch, g1) \<and> dict_get out5 ''GPIO34'' = Some ch
      else dict_get out5 ''GPIO34'' = None \<and> g1 = g"
    using s1(4) n34 unfolding c34 by (auto split: if_splits)
  have p2: "if source_present m simdata ''current_key''
      then \<exists>col ch. dict_get m ''current_key'' = Some col \<and>
             emulate_acs lib randn g1 simdata col = Inr (ch, g2) \<and> dict_get out5 ''GPIO35'' = Some ch
      else dict_get out5 ''GPIO35'' = None \<and> g2 = g1"
    using s2(4) n35 unfolding c35 by (auto split: if_splits)
  have p3: "if source_present m simdata ''temp_node_key''
      then \<exists>col ch. dict_get m ''temp_node_key'' = Some col \<and>
             emulate_ntc lib simdata col = Inr ch \<and> dict_get out5 ''GPIO32'' = Some ch
      else dict_get out5 ''GPIO32'' = None"
    using s3(4) n32 ntc_state unfolding c32 by (auto split: if_splits)
  have p4: "if source_present m simdata ''piezo_key''
      then \<exists>col ch. dict_get m ''piezo_key'' = Some col \<and>
             emulate_piezo lib randn g2 simdata col = Inr (ch, g4) \<and> dict_get out5 ''GPIO33'' = Some ch
      else dict_get out5 ''GPIO33'' = None \<and> g4 = g2"
    using s4(4) n33 unfolding c33 g3 by (auto split: if_splits)
  have p5: "if source_present m simdata ''relay_key''
      then \<exists>col ch. dict_get m ''relay_key'' = Some col \<and>
             dict_get simdata col = Some ch \<and> dict_get out5 ''GPIO26'' = Some ch
      else dict_get out5 ''GPIO26'' = None"
  proof (cases "source_present m simdata ''relay_key''")
    case False
    then show ?thesis using s5(4) n26 by simp
  next
    case True
    with s5(4) obtain col ch where col: "dict_get m ''relay_key'' = Some col"
      "dict_get simdata col \<noteq> None" "relay g4 simdata col = Inr (ch, g5)"
      "dict_get out5 ''GPIO26'' = Some ch" by auto
    from relay_state [OF col(3)] have "emulate_relay simdata col = Inr ch" by simp
    with col(2) have "dict_get simdata col = Some ch" by (auto simp: emulate_relay_def)
    with True col show ?thesis by auto
  qed
  have q1: "if source_present m simdata ''voltage_node_key''
      then \<exists>col ch g0 g1. dict_get m ''voltage_node_key'' = Some col \<and>
             emulate_zmpt lib randn g0 simdata col = Inr (ch, g1) \<and> dict_get out5 ''GPIO34'' = Some ch
      else ''GPIO34'' \<notin> set (dict_keys out5)"
  proof (cases "source_present m simdata ''voltage_node_key''")
    case True
    with p1 show ?thesis by auto
  next
    case False
    with p1 show ?thesis by (simp add: dict_get_keys)
  qed
  have q2: "if source_present m simdata ''current_key''
      then \<exists>col ch g0 g1. dict_get m ''current_key'' = Some col \<and>
             emulate_acs lib randn g0 simdata col = Inr (ch, g1) \<and> dict_get out5 ''GPIO35'' = Some ch
      else ''GPIO35'' \<notin> set (dict_keys out5)"
  proof (cases "source_present m simdata ''current_key''")
    case True
    with p2 show ?thesis by auto
  next
    case False
    with p2 show ?thesis by (simp add: dict_get_keys)
  qed
  have q3: "if source_present m simdata ''temp_node_key''
      then \<exists>col ch. dict_get m ''temp_node_key'' = Some col \<and>
             emulate_ntc lib simdata col = Inr ch \<and> dict_get out5 ''GPIO32'' = Some ch
      else ''GPIO32'' \<notin> set (dict_keys out5)"
  proof (cases "source_present m simdata ''temp_node_key''")
    case True
    with p3 show ?thesis by auto
  next
    case False
    with p3 show ?thesis by (simp add: dict_get_keys)
  qed
  have q4: "if source_present m simdata ''piezo_key''
      then \<exists>col ch g0 g1. dict_get m ''piezo_key'' = Some col \<and>
             emulate_piezo lib randn g0 simdata col = Inr (ch, g1) \<and> dict_get out5 ''GPIO33'' = Some ch
      else ''GPIO33'' \<notin> set (dict_keys out5)"
  proof (cases "source_present m simdata ''piezo_key''")
    case True
    with p4 show ?thesis by auto
  next
    case False
    with p4 show ?thesis by (simp add: dict_get_keys)
  qed
  have q5: "if source_present m simdata ''relay_key''
      then \<exists>col ch. dict_get m ''relay_key'' = Some col \<and>
             emulate_relay simdata col = Inr ch \<and> dict_get out5 ''GPIO26'' = Some ch
      else ''GPIO26'' \<notin> set (dict_keys out5)"
  proof (cases "source_present m simdata ''relay_key''")
    case True
    with p5 show ?thesis by (auto simp: emulate_relay_def)
  next
    case False
    with p5 show ?thesis by (simp add: dict_get_keys)
  qed
  have r: "dict_get out5 ''GPIO26'' =
       (case dict_get m ''relay_key'' of None \<Rightarrow> None | Some col \<Rightarrow> dict_get simdata col)"
  proof (cases "source_present m simdata ''relay_key''")
    case True
    with p5 show ?thesis by auto
  next
    case False
    with p5 have "dict_get out5 ''GPIO26'' = None" by simp
    moreover from False have "(case dict_get m ''relay_key'' of None \<Rightarrow> None | Some col \<Rightarrow> dict_get simdata col) = None"
      by (auto simp: source_present_def dict_get_keys split: option.splits)
    ultimately show ?thesis by simp
  qed
  have "run_emulator lib randn g simdata mapping_arg = Inr (out5, g4) \<and>
     dict_get out5 ''time'' = Some (time_axis simdata) \<and>
     set (dict_keys out5) \<subseteq> {''time'', ''GPIO34'', ''GPIO35'', ''GPIO32'', ''GPIO33'', ''GPIO26''} \<and>
     (if source_present m simdata ''voltage_node_key''
      then \<exists>col ch g0 g1. dict_get m ''voltage_node_key'' = Some col \<and>
             emulate_zmpt lib randn g0 simdata col = Inr (ch, g1) \<and> dict_get out5 ''GPIO34'' = Some ch
      else ''GPIO34'' \<notin> set (dict_keys out5)) \<and>
     (if source_present m simdata ''current_key''
      then \<exists>col ch g0 g1. dict_get m ''current_key'' = Some col \<and>
             emulate_acs lib randn g0 simdata col = Inr (ch, g1) \<and> dict_get out5 ''GPIO35'' = Some ch
      else ''GPIO35'' \<notin> set (dict_keys out5)) \<and>
     (if source_present m simdata ''temp_node_key''
      then \<exists>col ch. dict_get m ''temp_node_key'' = Some col \<and>
             emulate_ntc lib simdata col = Inr ch \<and> dict_get out5 ''GPIO32'' = Some ch
      else ''GPIO32'' \<notin> set (dict_keys out5)) \<and>
     (if source_present m simdata ''piezo_key''
      then \<exists>col ch g0 g1. dict_get m ''piezo_key'' = Some col \<and>
             emulate_piezo lib randn g0 simdata col = Inr (ch, g1) \<and> dict_get out5 ''GPIO33'' = Some ch
      else ''GPIO33'' \<notin> set (dict_keys out5)) \<and>
     (if source_present m simdata ''relay_key''
      then \<exists>col ch. dict_get m ''relay_key'' = Some col \<and>
             emulate_relay simdata col = Inr ch \<and> dict_get out5 ''GPIO26'' = Some ch
      else ''GPIO26'' \<notin> set (dict_keys out5)) \<and>
     dict_get out5 ''GPIO26'' =
       (case dict_get m ''relay_key'' of None \<Rightarrow> None | Some col \<Rightarrow> dict_get simdata col)"
    using run time keys q1 q2 q3 q4 q5 r by (intro conjI)
  then show ?thesis unfolding m_def time_axis_def by (intro exI)
qed

text \<open>
  Claim C6. \<^verbatim>\<open>run_emulator\<close> returns a frame for every simulation data and mapping. The
  frame holds the time axis and no key beyond the five channel names. A channel whose
  configured source column is missing from the data (or whose mapping entry is missing)
  has no key in the frame; a channel whose source column is present is bound to the
  result of its emulation function on that column.
\<close>

theorem missing_source_channel_omitted:
  "\<exists>out g'.
     run_emulator lib randn g simdata mapping_arg = Inr (out, g') \<and>
     dict_get out ''time'' = Some (case dict_get simdata ''time'' of None \<Rightarrow> [] | Some t \<Rightarrow> t) \<and>
     set (dict_keys out) \<subseteq> {''time'', ''GPIO34'', ''GPIO35'', ''GPIO32'', ''GPIO33'', ''GPIO26''} \<and>
     (if source_present (resolve_mapping mapping_arg) simdata ''voltage_node_key''
      then \<exists>col ch g0 g1. dict_get (resolve_mapping mapping_arg) ''voltage_node_key'' = Some col \<and>
             emulate_zmpt lib randn g0 simdata col = Inr (ch, g1) \<and> dict_get out ''GPIO34'' = Some ch
      else ''GPIO34'' \<notin> set (dict_keys out)) \<and>
     (if source_present (resolve_mapping mapping_arg) simdata ''current_key''
      then \<exists>col ch g0 g1. dict_get (resolve_mapping mapping_arg) ''current_key'' = Some col \<and>
             emulate_acs lib randn g0 simdata col = Inr (ch, g1) \<and> dict_get out ''GPIO35'' = Some ch
      else ''GPIO35'' \<notin> set (dict_keys out)) \<and>
     (if source_present (resolve_mapping mapping_arg) simdata ''temp_node_key''
      then \<exists>col ch. dict_get (resolve_mapping mapping_arg) ''temp_node_key'' = Some col \<and>
             emulate_ntc lib simdata col = Inr ch \<and> dict_get out ''GPIO32'' = Some ch
      else ''GPIO32'' \<notin> set (dict_keys out)) \<and>
     (if source_present (resolve_mapping mapping_arg) simdata ''piezo_key''
      then \<exists>col ch g0 g1. dict_get (resolve_mapping mapping_arg) ''piezo_key'' = Some col \<and>
             emulate_piezo lib randn g0 simdata col = Inr (ch, g1) \<and> dict_get out ''GPIO33'' = Some ch
      else ''GPIO33'' \<notin> set (dict_keys out)) \<and>
     (if source_present (resolve_mapping mapping_arg) simdata ''relay_key''
      then \<exists>col ch. dict_get (resolve_mapping mapping_arg) ''relay_key'' = Some col \<and>
             emulate_relay simdata col = Inr ch \<and> dict_get out ''GPIO26'' = Some ch
      else ''GPIO26'' \<notin> set (dict_keys out))"
proof -
  from run_emulator_frame [of lib randn g simdata mapping_arg]
  obtain out g' where h: "run_emulator lib randn g simdata mapping_arg = Inr (out, g') \<and>
     dict_get out ''time'' = Some (case dict_get simdata ''time'' of None \<Rightarrow> [] | Some t \<Rightarrow> t) \<and>
     set (dict_keys out) \<subseteq> {''time'', ''GPIO34'', ''GPIO35'', ''GPIO32'', ''GPIO33'', ''GPIO26''} \<and>
     (if source_present (resolve_mapping mapping_arg) simdata ''voltage_node_key''
      then \<exists>col ch g0 g1. dict_get (resolve_mapping mapping_arg) ''voltage_node_key'' = Some col \<and>
             emulate_zmpt lib randn g0 simdata col = Inr (ch, g1) \<and> dict_get out ''GPIO34'' = Some ch
      else ''GPIO34'' \<notin> set (dict_keys out)) \<and>
     (if source_present (resolve_mapping mapping_arg) simdata ''current_key''
      then \<exists>col ch g0 g1. dict_get (resolve_mapping mapping_arg) ''current_key'' = Some col \<and>
             emulate_acs lib randn g0 simdata col = Inr (ch, g1) \<and> dict_get out ''GPIO35'' = Some ch
      else ''GPIO35'' \<notin> set (dict_keys out)) \<and>
     (if source_present (resolve_mapping mapping_arg) simdata ''temp_node_key''
      then \<exists>col ch. dict_get (resolve_mapping mapping_arg) ''temp_node_key'' = Some col \<and>
             emulate_ntc lib simdata col = Inr ch \<and> dict_get out ''GPIO32'' = Some ch
      else ''GPIO32'' \<notin> set (dict_keys out)) \<and>
     (if source_present (resolve_mapping mapping_arg) simdata ''piezo_key''
      then \<exists>col ch g0 g1. dict_get (resolve_mapping mapping_arg) ''piezo_key'' = Some col \<and>
             emulate_piezo lib randn g0 simdata col = Inr (ch, g1) \<and> dict_get out ''GPIO33'' = Some ch
      else ''GPIO33'' \<notin> set (dict_keys out)) \<and>
     (if source_present (resolve_mapping mapping_arg) simdata ''relay_key''
      then \<exists>col ch. dict_get (resolve_mapping mapping_arg) ''relay_key'' = Some col \<and>
             emulate_relay simdata col = Inr ch \<and> dict_get out ''GPIO26'' = Some ch
      else ''GPIO26'' \<notin> set (dict_keys out)) \<and>
     dict_get out ''GPIO26'' =
       (case dict_get (resolve_mapping mapping_arg) ''relay_key'' of
          None \<Rightarrow> None
        | Some col \<Rightarrow> dict_get simdata col)"
    by (elim exE) (rule that)
  show ?thesis
    apply (rule exI [of _ out])
    apply (rule exI [of _ g'])
    using h
    apply (elim conjE)
    apply (intro conjI)
           apply assumption+
    done
qed

theorem missing_source_channel_omitted_witness:
  "\<forall>lib randn g.
     \<exists>out g'. run_emulator lib randn (g::nat)
                 [(''time'', [Fin 0, Fin 1]), (''V(n_ac)'', [Fin 1, Fin 2]), (''V(n_relay)'', [Fin 1, Fin 0])]
                 None = Inr (out, g') \<and>
       dict_get out ''time'' = Some [Fin 0, Fin 1] \<and>
       ''GPIO34'' \<in> set (dict_keys out) \<and>
       ''GPIO35'' \<notin> set (dict_keys out) \<and>
       ''GPIO32'' \<notin> set (dict_keys out) \<and>
       ''GPIO33'' \<notin> set (dict_keys out) \<and>
       dict_get out ''GPIO26'' = Some [Fin 1, Fin 0]"
proof (intro allI)
  fix lib randn and g :: nat
  let ?sd = "[(''time'', [Fin 0, Fin 1]), (''V(n_ac)'', [Fin 1, Fin 2]), (''V(n_relay)'', [Fin 1, Fin 0])]"
  have sp: "source_present (resolve_mapping None) ?sd ''voltage_node_key''"
    "\<not> source_present (resolve_mapping None) ?sd ''current_key''"
    "\<not> source_present (resolve_mapping None) ?sd ''temp_node_key''"
    "\<not> source_present (resolve_mapping None) ?sd ''piezo_key''"
    "source_present (resolve_mapping None) ?sd ''relay_key''"
    by (simp_all add: resolve_mapping_def default_mapping_def source_present_def dict_get_def
        dict_keys_def)
  have m: "dict_get (resolve_mapping None) ''relay_key'' = Some ''V(n_relay)''"
    by (simp add: resolve_mapping_def default_mapping_def dict_get_def)
  have rl: "emulate_relay ?sd ''V(n_relay)'' = Inr [Fin 1, Fin 0]"
    by (simp add: emulate_relay_def dict_get_def)
  have tm: "(case dict_get ?sd ''time'' of None \<Rightarrow> [] | Some t \<Rightarrow> t) = [Fin 0, Fin 1]"
    by (simp add: dict_get_def)
  from missing_source_channel_omitted [of lib randn g ?sd None]
  show "\<exists>out g'. run_emulator lib randn g ?sd None = Inr (out, g') \<and>
       dict_get out ''time'' = Some [Fin 0, Fin 1] \<and>
       ''GPIO34'' \<in> set (dict_keys out) \<and>
       ''GPIO35'' \<notin> set (dict_keys out) \<and>
       ''GPIO32'' \<notin> set (dict_keys out) \<and>
       ''GPIO33'' \<notin> set (dict_keys out) \<and>
       dict_get out ''GPIO26'' = Some [Fin 1, Fin 0]"
    unfolding if_P [OF sp(1)] if_not_P [OF sp(2)] if_not_P [OF sp(3)] if_not_P [OF sp(4)]
      if_P [OF sp(5)] m tm
    apply (elim exE conjE)
    apply (intro exI conjI)
          apply assumption
         apply assumption
        apply (simp add: dict_get_keys)
       apply assumption+
    apply (clarsimp simp: rl)
    done
qed

text \<open>
  Claim C7, as the code has it. \<^verbatim>\<open>emulate_relay\<close> returns the raw values of a column
  that is present, and zeros of the length of the time axis for a column that is
  missing. \<^verbatim>\<open>run_emulator\<close> calls it only when the column is present: in the frame the
  relay channel is the raw column, and it has no key when the column is missing.
\<close>

theorem relay_passthrough:
  "(dict_get sd1 k1 = Some arr \<longrightarrow> emulate_relay sd1 k1 = Inr arr) \<and>
   (dict_get sd2 k2 = None \<and> dict_get sd2 ''time'' = Some t \<longrightarrow>
      emulate_relay sd2 k2 = Inr (replicate (length t) (Fin 0))) \<and>
   (\<exists>out g'. run_emulator lib randn g simdata mapping_arg = Inr (out, g') \<and>
      dict_get out ''GPIO26'' =
        (case dict_get (resolve_mapping mapping_arg) ''relay_key'' of
           None \<Rightarrow> None
         | Some col \<Rightarrow> dict_get simdata col))"
proof (intro conjI impI)
  show "emulate_relay sd1 k1 = Inr arr" if "dict_get sd1 k1 = Some arr"
    using that by (simp add: emulate_relay_def)
  show "emulate_relay sd2 k2 = Inr (replicate (length t) (Fin 0))"
    if "dict_get sd2 k2 = None \<and> dict_get sd2 ''time'' = Some t"
    using that by (simp add: emulate_relay_def)
  from run_emulator_frame [of lib randn g simdata mapping_arg]
  show "\<exists>out g'. run_emulator lib randn g simdata mapping_arg = Inr (out, g') \<and>
      dict_get out ''GPIO26'' =
        (case dict_get (resolve_mapping mapping_arg) ''relay_key'' of
           None \<Rightarrow> None
         | Some col \<Rightarrow> dict_get simdata col)"
    apply (elim exE conjE)
    apply (intro exI conjI)
     apply assumption+
    done
qed

theorem relay_passthrough_witness:
  "\<forall>lib randn g.
     dict_get [(''time'', [Fin 0, Fin 1]), (''V(n_relay)'', [Fin 1, Fin 0])] ''V(n_relay)'' = Some [Fin 1, Fin 0] \<and>
     emulate_relay [(''time'', [Fin 0, Fin 1]), (''V(n_relay)'', [Fin 1, Fin 0])] ''V(n_relay)'' = Inr [Fin 1, Fin 0] \<and>
     dict_get [(''time'', [Fin 0, Fin 1])] ''V(n_relay)'' = None \<and>
     dict_get [(''time'', [Fin 0, Fin 1])] ''time'' = Some [Fin 0, Fin 1] \<and>
     emulate_relay [(''time'', [Fin 0, Fin 1])] ''V(n_relay)'' = Inr [Fin 0, Fin 0] \<and>
     (\<exists>out g'. run_emulator lib randn (g::nat) [(''time'', [Fin 0, Fin 1]), (''V(n_relay)'', [Fin 1, Fin 0])] None
          = Inr (out, g') \<and>
        dict_get out ''GPIO26'' = Some [Fin 1, Fin 0])"
proof (intro allI)
  fix lib randn and g :: nat
  let ?sd1 = "[(''time'', [Fin 0, Fin 1]), (''V(n_relay)'', [Fin 1, Fin 0])]"
  let ?sd2 = "[(''time'', [Fin 0, Fin 1])]"
  have a: "dict_get ?sd1 ''V(n_relay)'' = Some [Fin 1, Fin 0]" by (simp add: dict_get_def)
  have b: "dict_get ?sd2 ''V(n_relay)'' = None \<and> dict_get ?sd2 ''time'' = Some [Fin 0, Fin 1]"
    by (simp add: dict_get_def)
  have c: "(case dict_get (resolve_mapping None) ''relay_key'' of None \<Rightarrow> None
            | Some col \<Rightarrow> dict_get ?sd1 col) = Some [Fin 1, Fin 0]"
    by (simp add: resolve_mapping_def default_mapping_def dict_get_def)
  note inst = relay_passthrough [of ?sd1 "''V(n_relay)''" "[Fin 1, Fin 0]" ?sd2 "''V(n_relay)''"
      "[Fin 0, Fin 1]" lib randn g ?sd1 None]
  have r1: "emulate_relay ?sd1 ''V(n_relay)'' = Inr [Fin 1, Fin 0]"
    using inst [THEN conjunct1] a by (rule mp)
  have r2: "emulate_relay ?sd2 ''V(n_relay)'' = Inr (replicate (length [Fin 0, Fin 1]) (Fin 0))"
    using inst [THEN conjunct2, THEN conjunct1] b by (rule mp)
  have r3: "\<exists>out g'. run_emulator lib randn g ?sd1 None = Inr (out, g') \<and>
        dict_get out ''GPIO26'' = Some [Fin 1, Fin 0]"
    using inst [THEN conjunct2, THEN conjunct2] unfolding c .
  show "dict_get ?sd1 ''V(n_relay)'' = Some [Fin 1, Fin 0] \<and>
     emulate_relay ?sd1 ''V(n_relay)'' = Inr [Fin 1, Fin 0] \<and>
     dict_get ?sd2 ''V(n_relay)'' = None \<and>
     dict_get ?sd2 ''time'' = Some [Fin 0, Fin 1] \<and>
     emulate_relay ?sd2 ''V(n_relay)'' = Inr [Fin 0, Fin 0] \<and>
     (\<exists>out g'. run_emulator lib randn g ?sd1 None = Inr (out, g') \<and>
        dict_get out ''GPIO26'' = Some [Fin 1, Fin 0])"
    using a b r1 r2 r3 by (simp add: numeral_2_eq_2)
qed

text \<open>
  With the default mapping and data that has only a time axis, the frame has no relay
  channel: it is omitted, not bound to zeros.
\<close>

theorem relay_absent_omitted_counterexample:
  "\<forall>lib randn g.
     run_emulator lib randn (g::nat) [(''time'', [Fin 0, Fin 1])] None
       = Inr ([(''time'', [Fin 0, Fin 1])], g) \<and>
     dict_get [(''time'', [Fin 0, Fin 1])] ''GPIO26'' = None"
  by (simp add: run_emulator_def resolve_mapping_def default_mapping_def emit_channel_def
      source_present_def dict_get_def dict_keys_def and_then_def Let_def)

section \<open>Properties of the row unifier\<close>

lemma fill_row_ok:
  assumes "set ks \<subseteq> set (dict_keys d)" and "distinct ks"
    and "set ks \<inter> set (dict_keys row) = {}"
  shows "\<exists>row'. fill_row d i ks row = Inr row' \<and>
           dict_keys row' = dict_keys row @ ks \<and>
           (\<forall>k. k \<notin> set ks \<longrightarrow> dict_get row' k = dict_get row k) \<and>
           (\<forall>k \<in> set ks. \<exists>arr. dict_get d k = Some arr \<and> dict_get row' k = Some (cell arr i))"
  using assms
proof (induction ks arbitrary: row)
  case Nil
  then show ?case by simp
next
  case (Cons k ks)
  from Cons.prems(1) have "dict_get d k \<noteq> None" by (simp add: dict_get_keys)
  then obtain arr where arr: "dict_get d k = Some arr" by auto
  define row1 where "row1 = dict_set k (cell arr i) row"
  have fresh: "k \<notin> fst ` set row" using Cons.prems(3) by (auto simp: dict_keys_def)
  have row1: "row1 = row @ [(k, cell arr i)]" unfolding row1_def using fresh by (rule dict_set_fresh)
  have keys1: "dict_keys row1 = dict_keys row @ [k]" by (simp add: row1 dict_keys_def)
  have "\<exists>row'. fill_row d i ks row1 = Inr row' \<and>
           dict_keys row' = dict_keys row1 @ ks \<and>
           (\<forall>k. k \<notin> set ks \<longrightarrow> dict_get row' k = dict_get row1 k) \<and>
           (\<forall>k \<in> set ks. \<exists>arr. dict_get d k = Some arr \<and> dict_get row' k = Some (cell arr i))"
  proof (rule Cons.IH)
    show "set ks \<subseteq> set (dict_keys d)" using Cons.prems(1) by simp
    show "distinct ks" using Cons.prems(2) by simp
    show "set ks \<inter> set (dict_keys row1) = {}" using Cons.prems(2,3) by (auto simp: keys1)
  qed
  then obtain row' where r: "fill_row d i ks row1 = Inr row'"
    "dict_keys row' = dict_keys row1 @ ks"
    "\<forall>k. k \<notin> set ks \<longrightarrow> dict_get row' k = dict_get row1 k"
    "\<forall>k \<in> set ks. \<exists>arr. dict_get d k = Some arr \<and> dict_get row' k = Some (cell arr i)"
    by blast
  have k1: "dict_get row1 k = Some (cell arr i)" by (simp add: row1_def dict_get_dict_set)
  have other: "dict_get row1 k' = dict_get row k'" if "k' \<noteq> k" for k'
    using that by (simp add: row1_def dict_get_dict_set)
  have "fill_row d i (k # ks) row = Inr row'"
    using arr r(1) by (simp add: row1_def cell_def)
  moreover have "dict_keys row' = dict_keys row @ k # ks" using r(2) keys1 by simp
  moreover have "\<forall>k'. k' \<notin> set (k # ks) \<longrightarrow> dict_get row' k' = dict_get row k'"
    using r(3) other by simp
  moreover have "\<forall>k' \<in> set (k # ks). \<exists>arr. dict_get d k' = Some arr \<and> dict_get row' k' = Some (cell arr i)"
  proof
    fix k' assume k': "k' \<in> set (k # ks)"
    show "\<exists>arr. dict_get d k' = Some arr \<and> dict_get row' k' = Some (cell arr i)"
    proof (cases "k' = k")
      case True
      have "k \<notin> set ks" using Cons.prems(2) by simp
      then have "dict_get row' k = Some (cell arr i)" using r(3) k1 by simp
      with arr True show ?thesis by simp
    next
      case False
      then show ?thesis using k' r(4) by simp
    qed
  qed
  ultimately show ?case by blast
qed

text \<open>
  Claim C9. For a frame with distinct keys and a time axis of length \<open>n\<close>, \<^verbatim>\<open>unify\<close>
  returns \<open>n\<close> rows in the order of the time axis. Row \<open>i\<close> has the key \<^verbatim>\<open>time\<close> and
  every other key of the frame, in the frame's order; its time field is the time value at
  \<open>i\<close>, and the field of a channel is the channel's value at \<open>i\<close>, or None when the
  channel has no value at \<open>i\<close>.
\<close>

theorem unify_rows:
  assumes "distinct (dict_keys d)" and "dict_get d ''time'' = Some t"
  shows "\<exists>rows. unify d = Inr rows \<and> length rows = length t \<and>
           (\<forall>i < length t.
              dict_keys (rows ! i) = ''time'' # filter (\<lambda>k. k \<noteq> ''time'') (dict_keys d) \<and>
              dict_get (rows ! i) ''time'' = Some (Some (t ! i)) \<and>
              (\<forall>k \<in> set (dict_keys d). k \<noteq> ''time'' \<longrightarrow>
                 (\<exists>arr. dict_get d k = Some arr \<and>
                    dict_get (rows ! i) k = Some (if i < length arr then Some (arr ! i) else None))))"
proof -
  define ks where "ks = filter (\<lambda>k. k \<noteq> ''time'') (dict_keys d)"
  define f where "f = (\<lambda>i. fill_row d i ks [(''time'', Some (t ! i))])"
  have ks: "set ks \<subseteq> set (dict_keys d)" "distinct ks" "''time'' \<notin> set ks"
    using assms(1) by (auto simp: ks_def)
  have row: "\<exists>row'. f i = Inr row' \<and>
           dict_keys row' = ''time'' # ks \<and>
           dict_get row' ''time'' = Some (Some (t ! i)) \<and>
           (\<forall>k \<in> set ks. \<exists>arr. dict_get d k = Some arr \<and> dict_get row' k = Some (cell arr i))" for i
  proof -
    have "set ks \<inter> set (dict_keys [(''time'', Some (t ! i))]) = {}"
      using ks(3) by (simp add: dict_keys_def)
    from fill_row_ok [OF ks(1,2) this, of i]
    obtain row' where r: "fill_row d i ks [(''time'', Some (t ! i))] = Inr row'"
      "dict_keys row' = dict_keys [(''time'', Some (t ! i))] @ ks"
      "\<forall>k. k \<notin> set ks \<longrightarrow> dict_get row' k = dict_get [(''time'', Some (t ! i))] k"
      "\<forall>k \<in> set ks. \<exists>arr. dict_get d k = Some arr \<and> dict_get row' k = Some (cell arr i)"
      by blast
    have "dict_get row' ''time'' = Some (Some (t ! i))"
      using r(3) ks(3) by (simp add: dict_get_def)
    with r show ?thesis by (simp add: f_def dict_keys_def)
  qed
  then have "\<And>x. x \<in> set [0 ..< length t] \<Longrightarrow> \<exists>y. f x = Inr y" by blast
  from collect_all_ok [of "[0 ..< length t]" f, OF this]
  obtain rows where rows: "collect f [0 ..< length t] = Inr rows"
    "length rows = length [0 ..< length t]"
    "\<forall>k < length [0 ..< length t]. f ([0 ..< length t] ! k) = Inr (rows ! k)"
    by blast
  have u: "unify d = Inr rows" using assms(2) rows(1) by (simp add: unify_def ks_def f_def)
  have "dict_keys (rows ! i) = ''time'' # ks \<and>
        dict_get (rows ! i) ''time'' = Some (Some (t ! i)) \<and>
        (\<forall>k \<in> set (dict_keys d). k \<noteq> ''time'' \<longrightarrow>
           (\<exists>arr. dict_get d k = Some arr \<and>
              dict_get (rows ! i) k = Some (if i < length arr then Some (arr ! i) else None)))"
    if i: "i < length t" for i
  proof -
    from rows(3) i have fi: "f i = Inr (rows ! i)" by simp
    from row [of i] fi have
      "dict_keys (rows ! i) = ''time'' # ks"
      "dict_get (rows ! i) ''time'' = Some (Some (t ! i))"
      "\<forall>k \<in> set ks. \<exists>arr. dict_get d k = Some arr \<and> dict_get (rows ! i) k = Some (cell arr i)"
      by simp_all
    moreover have "k \<in> set ks" if "k \<in> set (dict_keys d)" "k \<noteq> ''time''" for k
      using that by (simp add: ks_def)
    ultimately show ?thesis by (simp add: cell_def)
  qed
  then show ?thesis using u rows(2) unfolding ks_def by auto
qed

theorem unify_rows_witness:
  "distinct (dict_keys [(''time'', [Fin 0, Fin 1, Fin 2]), (''a'', [Fin 5]), (''b'', [])]) \<and>
   dict_get [(''time'', [Fin 0, Fin 1, Fin 2]), (''a'', [Fin 5]), (''b'', [])] ''time''
     = Some [Fin 0, Fin 1, Fin 2] \<and>
   unify [(''time'', [Fin 0, Fin 1, Fin 2]), (''a'', [Fin 5]), (''b'', [])] =
     Inr [[(''time'', Some (Fin 0)), (''a'', Some (Fin 5)), (''b'', None)],
          [(''time'', Some (Fin 1)), (''a'', None), (''b'', None)],
          [(''time'', Some (Fin 2)), (''a'', None), (''b'', None)]]"
proof -
  let ?d = "[(''time'', [Fin 0, Fin 1, Fin 2]), (''a'', [Fin 5]), (''b'', [])]"
  have a: "distinct (dict_keys ?d)" by (simp add: dict_keys_def)
  have b: "dict_get ?d ''time'' = Some [Fin 0, Fin 1, Fin 2]" by (simp add: dict_get_def)
  from unify_rows [OF a b] obtain rows where "unify ?d = Inr rows" by blast
  moreover have "unify ?d =
     Inr [[(''time'', Some (Fin 0)), (''a'', Some (Fin 5)), (''b'', None)],
          [(''time'', Some (Fin 1)), (''a'', None), (''b'', None)],
          [(''time'', Some (Fin 2)), (''a'', None), (''b'', None)]]"
    by (simp add: unify_def dict_get_def dict_keys_def upt_conv_Cons)
  ultimately show ?thesis using a b by simp
qed

section \<open>Empty inputs and the missing header\<close>

lemma find_header_None_iff: "find_header lines = None \<longleftrightarrow> (\<forall>line \<in> set lines. \<not> is_header line)"
  by (induction lines) auto

lemma parse_lines_runtime_error_iff:
  "parse_lines fv lines = Inl RuntimeError \<longleftrightarrow> find_header lines = None"
proof (cases "find_header lines")
  case None
  then show ?thesis by (simp add: parse_lines_def)
next
  case (Some i)
  then show ?thesis using parse_lines_char [OF Some, of fv] by simp
qed

lemma re_split_from_first:
  "\<exists>rest. re_split_from cur s = (rev cur @ takeWhile (\<lambda>c. \<not> is_space c) s) # rest"
  by (induction cur s rule: re_split_from.induct) auto

lemma re_split_from_substring:
  "tok \<in> set (re_split_from cur s) \<Longrightarrow> \<exists>pre suf. rev cur @ s = pre @ tok @ suf"
proof (induction cur s rule: re_split_from.induct)
  case (1 cur)
  then have "rev cur @ [] = [] @ tok @ []" by simp
  then show ?case by blast
next
  case (2 cur c cs)
  show ?case
  proof (cases "is_space c")
    case True
    with 2(3) consider "tok = rev cur" | "tok \<in> set (re_split_from [] (dropWhile is_space cs))"
      by auto
    then show ?thesis
    proof cases
      case 1
      then have "rev cur @ c # cs = [] @ tok @ (c # cs)" by simp
      then show ?thesis by blast
    next
      case 2
      from "2.IH"(1) [OF True this] obtain pre suf where
        "dropWhile is_space cs = pre @ tok @ suf" by auto
      then have "rev cur @ c # cs = (rev cur @ c # takeWhile is_space cs @ pre) @ tok @ suf"
        by (metis append.assoc append_Cons takeWhile_dropWhile_id)
      then show ?thesis by blast
    qed
  next
    case False
    with 2(3) have "tok \<in> set (re_split_from (c # cur) cs)" by simp
    from "2.IH"(2) [OF False this] show ?thesis by simp
  qed
qed

lemma contains_substring: "contains (pre @ sub @ suf) sub"
proof (induction pre)
  case Nil
  have sw: "startswith (sub @ suf) sub" by (simp add: startswith_def)
  show ?case
  proof (cases "sub @ suf")
    case Nil
    then show ?thesis by simp
  next
    case (Cons a list)
    with sw show ?thesis by simp
  qed
next
  case (Cons c pre)
  then show ?case by simp
qed

lemma strip_substring: "\<exists>pre suf. line = pre @ strip line @ suf"
proof -
  define y where "y = dropWhile is_space line"
  have "line = takeWhile is_space line @ y" by (simp add: y_def)
  moreover have "rev y = takeWhile is_space (rev y) @ dropWhile is_space (rev y)" by simp
  then have "y = rev (dropWhile is_space (rev y)) @ rev (takeWhile is_space (rev y))"
    by (metis rev_append rev_rev_ident)
  ultimately have "line = takeWhile is_space line @ strip line @ rev (takeWhile is_space (rev y))"
    by (simp add: strip_def y_def)
  then show ?thesis by blast
qed

lemma spec_header_is_header:
  assumes "spec_header_line line"
  shows "startswith (strip line) ''Index'' \<and> contains line ''time''"
proof -
  from assms obtain rest where tk: "tokens line = ''Index'' # rest" "''time'' \<in> set (''Index'' # rest)"
    by (auto simp: spec_header_line_def split: list.splits)
  from re_split_from_first [of "[]" "strip line"] tk(1)
  have first: "takeWhile (\<lambda>c. \<not> is_space c) (strip line) = ''Index''"
    by (auto simp: tokens_def re_split_ws_def)
  have "take (length (takeWhile (\<lambda>c. \<not> is_space c) (strip line))) (strip line)
          = takeWhile (\<lambda>c. \<not> is_space c) (strip line)"
    by (metis append_eq_conv_conj takeWhile_dropWhile_id)
  then have sw: "startswith (strip line) ''Index''" using first by (simp add: startswith_def)
  from tk have "''time'' \<in> set (re_split_from [] (strip line))"
    by (simp add: tokens_def re_split_ws_def)
  from re_split_from_substring [OF this] obtain p s where ps: "strip line = p @ ''time'' @ s"
    by auto
  from strip_substring [of line] obtain a b where "line = a @ strip line @ b" by blast
  then have "line = (a @ p) @ ''time'' @ (s @ b)" using ps by simp
  then have "contains line ''time''" using contains_substring by metis
  with sw show ?thesis by simp
qed

lemma collect_first_error: "f x = Inl e \<Longrightarrow> collect f (x # xs) = Inl e"
  by simp

lemma py_slice_empty: "py_slice [] a b = []"
  by (simp add: py_slice_def)

lemma windowed_features_empty_series:
  "windowed_features lib [] window_size step =
     (if (0 < step \<and> 1 \<le> window_size) \<or> (step < 0 \<and> window_size \<le> 1) then Inr []
      else Inl ValueError)"
proof -
  define f where "f = (\<lambda>start. extract_basic_stats lib (py_slice ([]::pyfloat list) start (start + window_size)))"
  have ferr: "f x = Inl ValueError" for x
    by (simp add: f_def py_slice_empty extract_basic_stats_empty)
  have some: "collect f (map (\<lambda>k. int k * step) [0 ..< n]) = Inl ValueError" if "0 < n" for n
  proof -
    from that have "[0 ..< n] = 0 # [Suc 0 ..< n]" by (simp add: upt_conv_Cons)
    then show ?thesis using ferr by simp
  qed
  consider (zero) "step = 0" | (pos) "0 < step" | (neg) "step < 0" by linarith
  then show ?thesis
  proof cases
    case zero
    then show ?thesis by (simp add: windowed_features_def py_range0_def)
  next
    case pos
    define n where "n = nat ((1 - window_size + step - 1) div step)"
    have wf: "windowed_features lib [] window_size step = collect f (map (\<lambda>k. int k * step) [0 ..< n])"
      using pos by (simp add: windowed_features_def py_range0_def f_def n_def)
    have "1 \<le> (1 - window_size + step - 1) div step \<longleftrightarrow> window_size \<le> 0"
      using int_le_div_iff [OF pos, of 1 "1 - window_size + step - 1"] by auto
    then have n0: "0 < n \<longleftrightarrow> window_size \<le> 0" by (auto simp: n_def)
    show ?thesis
    proof (cases "window_size \<le> 0")
      case True
      then show ?thesis using wf some n0 pos by simp
    next
      case False
      then have "n = 0" using n0 by simp
      then show ?thesis using wf pos False by simp
    qed
  next
    case neg
    define n where "n = nat ((- (1 - window_size) - step - 1) div (- step))"
    have wf: "windowed_features lib [] window_size step = collect f (map (\<lambda>k. int k * step) [0 ..< n])"
      using neg by (simp add: windowed_features_def py_range0_def f_def n_def)
    have "0 < - step" using neg by simp
    from int_le_div_iff [OF this, of 1 "- (1 - window_size) - step - 1"]
    have "1 \<le> (- (1 - window_size) - step - 1) div (- step) \<longleftrightarrow> 2 \<le> window_size" by auto
    then have n0: "0 < n \<longleftrightarrow> 2 \<le> window_size" by (auto simp: n_def)
    show ?thesis
    proof (cases "2 \<le> window_size")
      case True
      then show ?thesis using wf some n0 neg by simp
    next
      case False
      then have "n = 0" using n0 by simp
      then show ?thesis using wf neg False by simp
    qed
  qed
qed

lemma run_emulator_no_sources:
  assumes "\<And>key. \<not> source_present (resolve_mapping mapping_arg) simdata key"
  shows "run_emulator lib randn g simdata mapping_arg =
           Inr ([(''time'', case dict_get simdata ''time'' of None \<Rightarrow> [] | Some t \<Rightarrow> t)], g)"
  using assms by (simp add: run_emulator_def Let_def emit_channel_def and_then_def)

text \<open>
  Claim C8, as the code has it. An empty channel mapping gives an empty feature
  vector. An empty series gives an empty window list exactly when \<^verbatim>\<open>step > 0\<close> and
  \<^verbatim>\<open>window_size >= 1\<close>, or \<^verbatim>\<open>step < 0\<close> and \<^verbatim>\<open>window_size <= 1\<close>; with any other
  parameters it raises ValueError. An empty sensor mapping, and simulation data with no
  column at all, give a frame with the time axis alone. An empty time axis gives no row;
  a frame without a time axis raises KeyError. A zero-length channel given to the
  statistics extractor raises ValueError: the maximum of an empty array is not defined.
  The parser raises RuntimeError, with no result, exactly when no line of the text starts
  with \<^verbatim>\<open>Index\<close> once stripped and has \<^verbatim>\<open>time\<close> somewhere in it. A header line in the
  spec's sense, by tokens, is always such a line; the converse does not hold.
\<close>

theorem empty_inputs:
  "extract_basic_stats lib [] = Inl ValueError \<and>
   signals_to_feature_vector lib [] = Inr [] \<and>
   windowed_features lib [] window_size step =
     (if (0 < step \<and> 1 \<le> window_size) \<or> (step < 0 \<and> window_size \<le> 1) then Inr []
      else Inl ValueError) \<and>
   run_emulator lib randn g simdata (Some []) =
     Inr ([(''time'', case dict_get simdata ''time'' of None \<Rightarrow> [] | Some t \<Rightarrow> t)], g) \<and>
   run_emulator lib randn g [] mapping_arg = Inr ([(''time'', [])], g) \<and>
   (dict_get d ''time'' = Some [] \<longrightarrow> unify d = Inr []) \<and>
   (dict_get d' ''time'' = None \<longrightarrow> unify d' = Inl KeyError) \<and>
   (parse_printed_table fv txt = Inl RuntimeError) =
     (\<forall>line \<in> set (splitlines txt).
        \<not> (startswith (strip line) ''Index'' \<and> contains line ''time'')) \<and>
   (spec_header_line line \<longrightarrow> startswith (strip line) ''Index'' \<and> contains line ''time'')"
proof -
  have p1: "extract_basic_stats lib [] = Inl ValueError" by (rule extract_basic_stats_empty)
  have p2: "signals_to_feature_vector lib [] = Inr []" by (simp add: signals_to_feature_vector_def)
  have p3: "windowed_features lib [] window_size step =
     (if (0 < step \<and> 1 \<le> window_size) \<or> (step < 0 \<and> window_size \<le> 1) then Inr []
      else Inl ValueError)"
    by (rule windowed_features_empty_series)
  have "\<not> source_present (resolve_mapping (Some [])) simdata key" for key
    by (simp add: source_present_def resolve_mapping_def dict_get_def)
  then have p4: "run_emulator lib randn g simdata (Some []) =
     Inr ([(''time'', case dict_get simdata ''time'' of None \<Rightarrow> [] | Some t \<Rightarrow> t)], g)"
    by (rule run_emulator_no_sources)
  have "\<not> source_present (resolve_mapping mapping_arg) [] key" for key
    by (simp add: source_present_def dict_keys_def split: option.splits)
  from run_emulator_no_sources [of mapping_arg "[]", OF this]
  have p5: "run_emulator lib randn g [] mapping_arg = Inr ([(''time'', [])], g)"
    by (simp add: dict_get_def)
  have p6: "dict_get d ''time'' = Some [] \<longrightarrow> unify d = Inr []"
    by (simp add: unify_def)
  have p7: "dict_get d' ''time'' = None \<longrightarrow> unify d' = Inl KeyError"
    by (simp add: unify_def)
  have p8: "(parse_printed_table fv txt = Inl RuntimeError) =
     (\<forall>line \<in> set (splitlines txt).
        \<not> (startswith (strip line) ''Index'' \<and> contains line ''time''))"
    unfolding parse_printed_table_def parse_lines_runtime_error_iff find_header_None_iff
    by (simp add: is_header_def)
  have p9: "spec_header_line line \<longrightarrow> startswith (strip line) ''Index'' \<and> contains line ''time''"
    using spec_header_is_header by blast
  from p1 p2 p3 p4 p5 p6 p7 p8 p9 show ?thesis by (intro conjI)
qed

theorem empty_inputs_witness:
  "\<forall>lib randn g fv.
     extract_basic_stats lib [] = Inl ValueError \<and>
     signals_to_feature_vector lib [] = Inr [] \<and>
     windowed_features lib [] 100 50 = Inr [] \<and>
     windowed_features lib [] 0 1 = Inl ValueError \<and>
     run_emulator lib randn (g::nat) [(''time'', [Fin 0])] (Some []) = Inr ([(''time'', [Fin 0])], g) \<and>
     run_emulator lib randn g [] None = Inr ([(''time'', [])], g) \<and>
     dict_get [(''time'', []), (''GPIO34'', [])] ''time'' = Some [] \<and>
     unify [(''time'', []), (''GPIO34'', [])] = Inr [] \<and>
     dict_get [(''GPIO34'', [Fin 1])] ''time'' = None \<and>
     unify [(''GPIO34'', [Fin 1])] = Inl KeyError \<and>
     list_all (\<lambda>line. \<not> (startswith (strip line) ''Index'' \<and> contains line ''time''))
       (splitlines ''no table\<newline>1 2 3'') \<and>
     parse_printed_table fv ''no table\<newline>1 2 3'' = Inl RuntimeError \<and>
     spec_header_line ''Index time v'' \<and>
     startswith (strip ''Index time v'') ''Index'' \<and> contains ''Index time v'' ''time''"
proof (intro allI)
  fix lib randn and g :: nat and fv
  have a: "dict_get [(''time'', []), (''GPIO34'', [])] ''time'' = Some []"
    by (simp add: dict_get_def)
  have b: "dict_get [(''GPIO34'', [Fin 1])] ''time'' = None"
    by (simp add: dict_get_def)
  have c: "list_all (\<lambda>line. \<not> (startswith (strip line) ''Index'' \<and> contains line ''time''))
       (splitlines ''no table\<newline>1 2 3'')"
    by code_simp
  have d: "spec_header_line ''Index time v''" by code_simp
  have t: "(case dict_get [(''time'', [Fin 0])] ''time'' of None \<Rightarrow> [] | Some t \<Rightarrow> t) = [Fin 0]"
    by (simp add: dict_get_def)
  note inst1 = empty_inputs [of lib 100 50 randn g "[(''time'', [Fin 0])]" None
      "[(''time'', []), (''GPIO34'', [])]" "[(''GPIO34'', [Fin 1])]" fv "''no table\<newline>1 2 3''"
      "''Index time v''"]
  note inst2 = empty_inputs [of lib 0 1 randn g "[(''time'', [Fin 0])]" None
      "[(''time'', []), (''GPIO34'', [])]" "[(''GPIO34'', [Fin 1])]" fv "''no table\<newline>1 2 3''"
      "''Index time v''"]
  have w2: "windowed_features lib [] 0 1 = Inl ValueError"
    using inst2 by simp
  have q: "extract_basic_stats lib [] = Inl ValueError \<and>
     signals_to_feature_vector lib [] = Inr [] \<and>
     windowed_features lib [] 100 50 = Inr [] \<and>
     run_emulator lib randn g [(''time'', [Fin 0])] (Some []) = Inr ([(''time'', [Fin 0])], g) \<and>
     run_emulator lib randn g [] None = Inr ([(''time'', [])], g) \<and>
     unify [(''time'', []), (''GPIO34'', [])] = Inr [] \<and>
     unify [(''GPIO34'', [Fin 1])] = Inl KeyError \<and>
     parse_printed_table fv ''no table\<newline>1 2 3'' = Inl RuntimeError \<and>
     startswith (strip ''Index time v'') ''Index'' \<and> contains ''Index time v'' ''time''"
    using inst1 by (simp add: a b d t c [unfolded list_all_iff])
  show "extract_basic_stats lib [] = Inl ValueError \<and>
     signals_to_feature_vector lib [] = Inr [] \<and>
     windowed_features lib [] 100 50 = Inr [] \<and>
     windowed_features lib [] 0 1 = Inl ValueError \<and>
     run_emulator lib randn (g::nat) [(''time'', [Fin 0])] (Some []) = Inr ([(''time'', [Fin 0])], g) \<and>
     run_emulator lib randn g [] None = Inr ([(''time'', [])], g) \<and>
     dict_get [(''time'', []), (''GPIO34'', [])] ''time'' = Some [] \<and>
     unify [(''time'', []), (''GPIO34'', [])] = Inr [] \<and>
     dict_get [(''GPIO34'', [Fin 1])] ''time'' = None \<and>
     unify [(''GPIO34'', [Fin 1])] = Inl KeyError \<and>
     list_all (\<lambda>line. \<not> (startswith (strip line) ''Index'' \<and> contains line ''time''))
       (splitlines ''no table\<newline>1 2 3'') \<and>
     parse_printed_table fv ''no table\<newline>1 2 3'' = Inl RuntimeError \<and>
     spec_header_line ''Index time v'' \<and>
     startswith (strip ''Index time v'') ''Index'' \<and> contains ''Index time v'' ''time''"
    using q a b c d w2 by (elim conjE) (intro conjI; assumption)
qed

text \<open>
  The statistics extractor does not return an empty structure on a zero-length channel.
  And the text \<^verbatim>\<open>Index timestamp V\<close> followed by the row \<^verbatim>\<open>1 2 3\<close> has no header line
  in the spec's sense, since no token of its first line is \<^verbatim>\<open>time\<close>, yet the parser
  does not fail on it: it returns a table of three columns.
\<close>

theorem empty_inputs_counterexample:
  "\<forall>lib fv.
     extract_basic_stats lib [] = Inl ValueError \<and>
     extract_basic_stats lib [] \<noteq> Inr [] \<and>
     list_all (\<lambda>line. \<not> spec_header_line line) (splitlines ''Index timestamp V\<newline>1 2 3'') \<and>
     parse_printed_table fv ''Index timestamp V\<newline>1 2 3'' =
       Inr [(''Index'', [fv ''1'']), (''timestamp'', [fv ''2'']), (''V'', [fv ''3''])]"
proof (intro allI)
  fix lib fv
  have "extract_basic_stats lib [] = Inl ValueError"
    by (simp add: extract_basic_stats_def np_max_def)
  moreover have "list_all (\<lambda>line. \<not> spec_header_line line) (splitlines ''Index timestamp V\<newline>1 2 3'')"
    by code_simp
  moreover have "parse_printed_table fv ''Index timestamp V\<newline>1 2 3'' =
       Inr [(''Index'', [fv ''1'']), (''timestamp'', [fv ''2'']), (''V'', [fv ''3''])]"
    by code_simp
  ultimately show "extract_basic_stats lib [] = Inl ValueError \<and>
     extract_basic_stats lib [] \<noteq> Inr [] \<and>
     list_all (\<lambda>line. \<not> spec_header_line line) (splitlines ''Index timestamp V\<newline>1 2 3'') \<and>
     parse_printed_table fv ''Index timestamp V\<newline>1 2 3'' =
       Inr [(''Index'', [fv ''1'']), (''timestamp'', [fv ''2'']), (''V'', [fv ''3''])]"
    by simp
qed

end
